theory Spec2Isabelle
  imports Main "HOL-Library.Word"
begin

section \<open>Value sets\<close>

text \<open>
  The analysed program is the load-forwarding store model of
  \<^verbatim>\<open>lib/Analysis/Integrator/LoadForward.cpp\<close>. Its headers are not part of the
  sources at hand, so the types they declare are modelled as far as the functions of
  \<^verbatim>\<open>LoadForward.cpp\<close> use them, and the helpers they declare are taken as
  parameters of the functions that call them.

  A \<^verbatim>\<open>ShadowValue\<close> is an opaque identity here (type variable \<open>'v\<close>). An
  \<^verbatim>\<open>ImprovedVal\<close> pairs it with a signed 64-bit byte offset (\<^verbatim>\<open>int64_t\<close>);
  the offset \<^verbatim>\<open>LLONG_MAX\<close> is the sentinel for an unknown offset.
\<close>

record 'v ImprovedVal =
  V :: 'v
  Offset :: "64 word"

datatype ValSetType =
  ValSetTypeUnknown | ValSetTypePB | ValSetTypeScalar | ValSetTypeScalarSplat | ValSetTypeVarArg

record 'v ImprovedValSetSingle =
  SetType :: ValSetType
  Values :: "'v ImprovedVal list"
  Overdef :: bool

definition LLONG_MAX :: "64 word" where
  "LLONG_MAX = 0x7FFFFFFFFFFFFFFF"

definition ULONG_MAX :: "64 word" where
  "ULONG_MAX = 0xFFFFFFFFFFFFFFFF"

text \<open>\<^verbatim>\<open>AliasAnalysis::UnknownSize\<close> is \<^verbatim>\<open>~UINT64_C(0)\<close> in LLVM 3.2.\<close>

definition UnknownSize :: "64 word" where
  "UnknownSize = 0xFFFFFFFFFFFFFFFF"

section \<open>Alias resolution\<close>

datatype SVAAResult = SVNoAlias | SVMayAlias | SVPartialAlias | SVMustAlias

text \<open>
  \<^verbatim>\<open>getUniqueNonNullIV\<close>: the loop carries \<^verbatim>\<open>uniqueVal\<close>; a second non-null
  candidate returns 0 at once. \<open>isNull v\<close> stands for
  \<^verbatim>\<open>v.getVal() && isa<ConstantPointerNull>(v.getVal())\<close>.
\<close>

fun getUniqueNonNullIV_from ::
  "('v \<Rightarrow> bool) \<Rightarrow> 'v ImprovedVal list \<Rightarrow> 'v ImprovedVal option \<Rightarrow> 'v ImprovedVal option"
where
  "getUniqueNonNullIV_from isNull [] uniqueVal = uniqueVal"
| "getUniqueNonNullIV_from isNull (x # xs) uniqueVal =
     (if isNull (V x) then getUniqueNonNullIV_from isNull xs uniqueVal
      else (case uniqueVal of
              Some u \<Rightarrow> None
            | None \<Rightarrow> getUniqueNonNullIV_from isNull xs (Some x)))"

definition getUniqueNonNullIV ::
  "('v \<Rightarrow> bool) \<Rightarrow> 'v ImprovedValSetSingle \<Rightarrow> 'v ImprovedVal option"
where
  "getUniqueNonNullIV isNull PB = getUniqueNonNullIV_from isNull (Values PB) None"

definition PBsMustAliasIfStoredAndLoaded ::
  "('v \<Rightarrow> bool) \<Rightarrow> 'v ImprovedValSetSingle \<Rightarrow> 'v ImprovedValSetSingle \<Rightarrow> bool"
where
  "PBsMustAliasIfStoredAndLoaded isNull PB1 PB2 =
     (case getUniqueNonNullIV isNull PB1 of
        None \<Rightarrow> False
      | Some IV1 \<Rightarrow>
          (case getUniqueNonNullIV isNull PB2 of
             None \<Rightarrow> False
           | Some IV2 \<Rightarrow>
               Offset IV1 \<noteq> LLONG_MAX \<and> Offset IV1 = Offset IV2 \<and> V IV1 = V IV2))"

text \<open>
  The test that lets the inner loop pass over a pair of candidates with known offsets.
  \<^verbatim>\<open>Offset + Size\<close> adds an \<^verbatim>\<open>int64_t\<close> to a \<^verbatim>\<open>uint64_t\<close>: the sum is taken
  modulo \<open>2^64\<close> and cast back to \<^verbatim>\<open>int64_t\<close>, and both comparisons are signed.
\<close>

definition rangesDisjoint :: "64 word \<Rightarrow> 64 word \<Rightarrow> 64 word \<Rightarrow> 64 word \<Rightarrow> bool" where
  "rangesDisjoint Off1 V1Size Off2 V2Size =
     ((V2Size \<noteq> UnknownSize \<and> sint (Off2 + V2Size) \<le> sint Off1) \<or>
      (V1Size \<noteq> UnknownSize \<and> sint (Off1 + V1Size) \<le> sint Off2))"

text \<open>
  The two nested loops of \<^verbatim>\<open>tryResolveImprovedValSetSingles\<close>. The only way out of
  them before the end is \<^verbatim>\<open>return SVPartialAlias\<close>, which is the value \<open>True\<close>.
\<close>

fun resolveInner ::
  "('v \<Rightarrow> 'v \<Rightarrow> bool) \<Rightarrow> 'v ImprovedVal \<Rightarrow> 64 word \<Rightarrow> 'v ImprovedVal list \<Rightarrow> 64 word \<Rightarrow> bool"
where
  "resolveInner basesAlias iv1 V1Size [] V2Size = False"
| "resolveInner basesAlias iv1 V1Size (iv2 # rest) V2Size =
     (if \<not> basesAlias (V iv1) (V iv2) then resolveInner basesAlias iv1 V1Size rest V2Size
      else if Offset iv1 = LLONG_MAX \<or> Offset iv2 = LLONG_MAX then True
      else if \<not> rangesDisjoint (Offset iv1) V1Size (Offset iv2) V2Size then True
      else resolveInner basesAlias iv1 V1Size rest V2Size)"

fun resolveOuter ::
  "('v \<Rightarrow> 'v \<Rightarrow> bool) \<Rightarrow> 'v ImprovedVal list \<Rightarrow> 64 word \<Rightarrow> 'v ImprovedVal list \<Rightarrow> 64 word \<Rightarrow> bool"
where
  "resolveOuter basesAlias [] V1Size vs2 V2Size = False"
| "resolveOuter basesAlias (iv1 # rest) V1Size vs2 V2Size =
     (if resolveInner basesAlias iv1 V1Size vs2 V2Size then True
      else resolveOuter basesAlias rest V1Size vs2 V2Size)"

definition tryResolveImprovedValSetSingles ::
  "('v \<Rightarrow> bool) \<Rightarrow> ('v \<Rightarrow> 'v \<Rightarrow> bool) \<Rightarrow>
   'v ImprovedValSetSingle \<Rightarrow> 64 word \<Rightarrow> 'v ImprovedValSetSingle \<Rightarrow> 64 word \<Rightarrow> SVAAResult"
where
  "tryResolveImprovedValSetSingles isNull basesAlias PB1 V1Size PB2 V2Size =
     (if V1Size = V2Size \<and> PBsMustAliasIfStoredAndLoaded isNull PB1 PB2 then SVMustAlias
      else if resolveOuter basesAlias (Values PB1) V1Size (Values PB2) V2Size
           then SVPartialAlias
      else SVNoAlias)"

text \<open>
  The byte ranges \<open>[offset, offset + size)\<close> of two candidates, read as ranges of
  integers: the offsets are signed, the sizes unsigned.
\<close>

definition rangesOverlap :: "64 word \<Rightarrow> 64 word \<Rightarrow> 64 word \<Rightarrow> 64 word \<Rightarrow> bool" where
  "rangesOverlap Off1 V1Size Off2 V2Size =
     (sint Off1 < sint Off2 + uint V2Size \<and> sint Off2 < sint Off1 + uint V1Size)"

text \<open>The end of a range is representable as an \<^verbatim>\<open>int64_t\<close>.\<close>

definition endFits :: "64 word \<Rightarrow> 64 word \<Rightarrow> bool" where
  "endFits Off Size = (sint Off + uint Size < 2 ^ 63)"

lemma sint_add_fits:
  fixes Off Size :: "64 word"
  assumes "endFits Off Size"
  shows "sint (Off + Size) = sint Off + uint Size"
proof -
  have lo: "- (2 ^ 63) \<le> sint Off"
    using sint_ge [of Off] by simp
  have hi: "sint Off + uint Size < 2 ^ 63"
    using assms by (simp add: endFits_def)
  have nonneg: "0 \<le> uint Size" by simp
  have "Off + Size = word_of_int (sint Off + uint Size)"
    by simp
  then have "sint (Off + Size) = signed_take_bit 63 (sint Off + uint Size)"
    by (simp only: sint_sbintrunc') simp
  also have "\<dots> = sint Off + uint Size"
  proof (rule signed_take_bit_int_eq_self)
    show "- (2 ^ 63) \<le> sint Off + uint Size" using lo nonneg by linarith
    show "sint Off + uint Size < 2 ^ 63" using hi by linarith
  qed
  finally show ?thesis .
qed

lemma overlap_not_disjoint:
  assumes ov: "rangesOverlap Off1 V1Size Off2 V2Size"
    and f1: "V1Size \<noteq> UnknownSize \<longrightarrow> endFits Off1 V1Size"
    and f2: "V2Size \<noteq> UnknownSize \<longrightarrow> endFits Off2 V2Size"
  shows "\<not> rangesDisjoint Off1 V1Size Off2 V2Size"
proof
  assume "rangesDisjoint Off1 V1Size Off2 V2Size"
  then consider
      (a) "V2Size \<noteq> UnknownSize" "sint (Off2 + V2Size) \<le> sint Off1"
    | (b) "V1Size \<noteq> UnknownSize" "sint (Off1 + V1Size) \<le> sint Off2"
    by (auto simp: rangesDisjoint_def)
  then show False
  proof cases
    case a
    with f2 have "sint (Off2 + V2Size) = sint Off2 + uint V2Size"
      by (simp add: sint_add_fits)
    with a ov show False by (simp add: rangesOverlap_def)
  next
    case b
    with f1 have "sint (Off1 + V1Size) = sint Off1 + uint V1Size"
      by (simp add: sint_add_fits)
    with b ov show False by (simp add: rangesOverlap_def)
  qed
qed

lemma resolveInner_hit:
  assumes "iv2 \<in> set vs2" "basesAlias (V iv1) (V iv2)"
    and "Offset iv1 = LLONG_MAX \<or> Offset iv2 = LLONG_MAX \<or>
         \<not> rangesDisjoint (Offset iv1) V1Size (Offset iv2) V2Size"
  shows "resolveInner basesAlias iv1 V1Size vs2 V2Size"
  using assms by (induction vs2) auto

lemma resolveOuter_hit:
  assumes "iv1 \<in> set vs1" "resolveInner basesAlias iv1 V1Size vs2 V2Size"
  shows "resolveOuter basesAlias vs1 V1Size vs2 V2Size"
  using assms by (induction vs1) auto

text \<open>
  Claim C5, as the code has it. If some candidate of \<open>PB1\<close> and some candidate of
  \<open>PB2\<close> have aliasing bases and overlapping byte ranges, and the end
  \<open>offset + size\<close> of each of the two ranges whose size is known fits a signed 64-bit
  integer, then the alias query does not answer \<open>SVNoAlias\<close>.
\<close>

theorem alias_overlap_not_NoAlias:
  assumes "iv1 \<in> set (Values PB1)" "iv2 \<in> set (Values PB2)"
    and "basesAlias (V iv1) (V iv2)"
    and "rangesOverlap (Offset iv1) V1Size (Offset iv2) V2Size"
    and "V1Size \<noteq> UnknownSize \<longrightarrow> endFits (Offset iv1) V1Size"
    and "V2Size \<noteq> UnknownSize \<longrightarrow> endFits (Offset iv2) V2Size"
  shows "tryResolveImprovedValSetSingles isNull basesAlias PB1 V1Size PB2 V2Size \<noteq> SVNoAlias"
proof -
  have "\<not> rangesDisjoint (Offset iv1) V1Size (Offset iv2) V2Size"
    using assms(4-6) by (rule overlap_not_disjoint)
  then have "resolveInner basesAlias iv1 V1Size (Values PB2) V2Size"
    using assms(2,3) by (intro resolveInner_hit) auto
  then have "resolveOuter basesAlias (Values PB1) V1Size (Values PB2) V2Size"
    using assms(1) by (intro resolveOuter_hit)
  then show ?thesis
    by (simp add: tryResolveImprovedValSetSingles_def)
qed

text \<open>
  A store of 4 bytes at offset 0 and a load of 8 bytes at offset 2 of the same base:
  the hypotheses hold and the query answers \<open>SVPartialAlias\<close>.
\<close>

theorem alias_overlap_not_NoAlias_witness:
  "rangesOverlap 0 4 2 8 \<and> endFits 0 4 \<and> endFits 2 8 \<and>
   tryResolveImprovedValSetSingles (\<lambda>v. False) (=)
     \<lparr>SetType = ValSetTypePB, Values = [\<lparr>V = (1::nat), Offset = 0\<rparr>], Overdef = False\<rparr> 4
     \<lparr>SetType = ValSetTypePB, Values = [\<lparr>V = (1::nat), Offset = 2\<rparr>], Overdef = False\<rparr> 8
   \<noteq> SVNoAlias"
proof -
  have ov: "rangesOverlap 0 4 2 8" by (simp add: rangesOverlap_def)
  have f1: "endFits 0 4" and f2: "endFits 2 8" by (simp_all add: endFits_def)
  show ?thesis
    using ov f1 f2
      alias_overlap_not_NoAlias [where isNull = "\<lambda>v. False" and basesAlias = "(=)"
        and ?iv1.0 = "\<lparr>V = (1::nat), Offset = 0\<rparr>" and ?iv2.0 = "\<lparr>V = (1::nat), Offset = 2\<rparr>"
        and ?V1Size.0 = 4 and ?V2Size.0 = 8
        and ?PB1.0 = "\<lparr>SetType = ValSetTypePB, Values = [\<lparr>V = (1::nat), Offset = 0\<rparr>], Overdef = False\<rparr>"
        and ?PB2.0 = "\<lparr>SetType = ValSetTypePB, Values = [\<lparr>V = (1::nat), Offset = 2\<rparr>], Overdef = False\<rparr>"]
    by simp
qed

text \<open>
  Claim C5 as stated fails where \<open>offset + size\<close> wraps around. A 1-byte access at
  offset 5 lies inside a \<open>2^63\<close>-byte access at offset 0 of the same base, but
  \<^verbatim>\<open>(int64_t)(0 + V2Size)\<close> is \<open>-2^63\<close>, the pair is passed over and the answer
  is \<open>SVNoAlias\<close>.
\<close>

theorem alias_overlap_wraparound_counterexample:
  "rangesOverlap 5 1 0 0x8000000000000000 \<and>
   tryResolveImprovedValSetSingles (\<lambda>v. False) (=)
     \<lparr>SetType = ValSetTypePB, Values = [\<lparr>V = (1::nat), Offset = 5\<rparr>], Overdef = False\<rparr> 1
     \<lparr>SetType = ValSetTypePB, Values = [\<lparr>V = (1::nat), Offset = 0\<rparr>], Overdef = False\<rparr>
       0x8000000000000000
   = SVNoAlias"
  by (simp add: rangesOverlap_def tryResolveImprovedValSetSingles_def rangesDisjoint_def
      UnknownSize_def LLONG_MAX_def)

section \<open>Partial values\<close>

text \<open>
  How a call ends: it returns, an \<^verbatim>\<open>assert\<close> or \<^verbatim>\<open>release_assert\<close> stops the
  program, or it does something C++ leaves undefined (an access outside an array, a null
  dereference, an allocation of nearly \<open>2^64\<close> bytes).
\<close>

datatype 'a outcome = Ok 'a | AssertFail | Crash

datatype PVType = PVEmpty | PVTotal | PVPartial | PVByteArray

text \<open>
  \<^verbatim>\<open>PartialVal\<close>. \<open>'c\<close> is LLVM's \<^verbatim>\<open>Constant\<close>. The two buffers are heap arrays, or
  null (\<open>None\<close>); the length of each list is the allocated number of elements.
  \<open>TotalIV = None\<close> is the default-constructed \<^verbatim>\<open>ImprovedVal\<close>, whose value is
  invalid. Sizes are \<^verbatim>\<open>uint64_t\<close>, modelled as natural numbers below \<open>2^64\<close>.
\<close>

record ('v, 'c) PartialVal =
  type :: PVType
  TotalIV :: "'v ImprovedVal option"
  TotalIVType :: ValSetType
  C :: "'c option"
  ReadOffset :: nat
  partialBuf :: "8 word list option"
  partialValidBuf :: "bool list option"
  partialBufBytes :: nat
  loadFinished :: bool

text \<open>The tag tests of the header.\<close>

definition isEmpty :: "('v, 'c) PartialVal \<Rightarrow> bool" where
  "isEmpty pv = (type pv = PVEmpty)"

definition isTotal :: "('v, 'c) PartialVal \<Rightarrow> bool" where
  "isTotal pv = (type pv = PVTotal)"

definition isPartial :: "('v, 'c) PartialVal \<Rightarrow> bool" where
  "isPartial pv = (type pv = PVPartial)"

definition isByteArray :: "('v, 'c) PartialVal \<Rightarrow> bool" where
  "isByteArray pv = (type pv = PVByteArray)"

text \<open>
  Unsigned 64-bit subtraction on natural numbers below \<open>2^64\<close>: a negative
  difference wraps around.
\<close>

definition sub64 :: "nat \<Rightarrow> nat \<Rightarrow> nat" where
  "sub64 a b = (if b \<le> a then a - b else a + 2 ^ 64 - b)"

text \<open>
  \<^verbatim>\<open>initByteArray\<close>. \<^verbatim>\<open>new uint64_t[nqwords]\<close> does not initialise its storage:
  \<open>fresh i\<close> is the byte found at index \<open>i\<close>. The validity array is allocated and
  cleared only when there is none yet.
\<close>

definition initByteArray ::
  "(nat \<Rightarrow> 8 word) \<Rightarrow> nat \<Rightarrow> ('v, 'c) PartialVal \<Rightarrow> ('v, 'c) PartialVal"
where
  "initByteArray fresh nbytes pv =
     pv\<lparr>type := PVByteArray,
        partialBuf := Some (map fresh [0 ..< 8 * ((nbytes + 7) div 8)]),
        partialValidBuf :=
          (case partialValidBuf pv of
             None \<Rightarrow> Some (replicate nbytes False)
           | Some vb \<Rightarrow> Some vb),
        partialBufBytes := nbytes,
        loadFinished := False\<rparr>"

text \<open>The constructor \<^verbatim>\<open>PartialVal(uint64_t nbytes)\<close>.\<close>

definition PartialVal_bytes :: "(nat \<Rightarrow> 8 word) \<Rightarrow> nat \<Rightarrow> ('v, 'c) PartialVal" where
  "PartialVal_bytes fresh nbytes =
     initByteArray fresh nbytes
       \<lparr>type = PVEmpty, TotalIV = None, TotalIVType = ValSetTypeUnknown, C = None,
        ReadOffset = 0, partialBuf = None, partialValidBuf = None, partialBufBytes = 0,
        loadFinished = False\<rparr>"

text \<open>
  \<^verbatim>\<open>PartialVal::getPartial(C, Offset)\<close> is declared in the header; the functions here
  use its result as a reference to constant \<open>C\<close> read from \<open>Offset\<close>, without buffers.
\<close>

definition getPartial :: "'c \<Rightarrow> nat \<Rightarrow> ('v, 'c) PartialVal" where
  "getPartial c off =
     \<lparr>type = PVPartial, TotalIV = None, TotalIVType = ValSetTypeUnknown, C = Some c,
      ReadOffset = off, partialBuf = None, partialValidBuf = None, partialBufBytes = 0,
      loadFinished = False\<rparr>"

text \<open>
  \<^verbatim>\<open>operator=\<close>: the tag and the scalar fields are copied. A buffer of \<open>Other\<close> is copied
  into a new array of \<^verbatim>\<open>(partialBufBytes + 7) / 8\<close> quad words, of which \<^verbatim>\<open>memcpy\<close> fills the
  first \<^verbatim>\<open>partialBufBytes\<close> bytes; the rest of the last quad word is not initialised
  (\<open>fresh\<close>, as in \<^verbatim>\<open>initByteArray\<close>). The validity array is copied into a new array of
  \<^verbatim>\<open>partialBufBytes\<close> elements. \<^verbatim>\<open>memcpy\<close> from an array that has fewer than
  \<^verbatim>\<open>partialBufBytes\<close> elements reads outside it.
\<close>

definition assign :: "(nat \<Rightarrow> 8 word) \<Rightarrow> ('v, 'c) PartialVal \<Rightarrow> ('v, 'c) PartialVal outcome" where
  "assign fresh Other =
     (let n = partialBufBytes Other in
      if (case partialBuf Other of None \<Rightarrow> False | Some b \<Rightarrow> length b < n) \<or>
         (case partialValidBuf Other of None \<Rightarrow> False | Some vb \<Rightarrow> length vb < n)
      then Crash
      else Ok (Other\<lparr>partialBuf :=
                       map_option (\<lambda>b. take n b @ map fresh [n ..< 8 * ((n + 7) div 8)]) (partialBuf Other),
                     partialValidBuf := map_option (take n) (partialValidBuf Other)\<rparr>))"

definition isComplete :: "('v, 'c) PartialVal \<Rightarrow> bool" where
  "isComplete pv = (isTotal pv \<or> isPartial pv \<or> loadFinished pv)"

text \<open>
  The first loop of \<^verbatim>\<open>combineWith\<close>, over \<open>i = 0, \<dots>, FirstNotDef - FirstDef - 1\<close>:
  a byte already valid is passed over, any other receives \<open>tempBuf[i]\<close>.
\<close>

primrec copyLoop ::
  "bool list \<Rightarrow> 8 word list \<Rightarrow> nat \<Rightarrow> nat list \<Rightarrow> 8 word list \<Rightarrow> 8 word list outcome"
where
  "copyLoop valid tempBuf FirstDef [] buf = Ok buf"
| "copyLoop valid tempBuf FirstDef (i # rest) buf =
     (if length valid \<le> FirstDef + i then Crash
      else if valid ! (FirstDef + i) then copyLoop valid tempBuf FirstDef rest buf
      else if length buf \<le> FirstDef + i \<or> length tempBuf \<le> i then Crash
      else copyLoop valid tempBuf FirstDef rest (buf[FirstDef + i := tempBuf ! i]))"

text \<open>
  The second loop: \<^verbatim>\<open>for(i = 0; i < LoadSize && (loadFinished || i < FirstNotDef); ++i)\<close>.
\<close>

function markLoop ::
  "nat \<Rightarrow> nat \<Rightarrow> nat \<Rightarrow> nat \<Rightarrow> bool list \<Rightarrow> bool \<Rightarrow> (bool list \<times> bool) outcome"
where
  "markLoop FirstDef FirstNotDef LoadSize i valid lf =
     (if i < LoadSize \<and> (lf \<or> i < FirstNotDef) then
        (if length valid \<le> i then Crash
         else if FirstDef \<le> i \<and> i < FirstNotDef
              then markLoop FirstDef FirstNotDef LoadSize (Suc i) (valid[i := True]) lf
         else if \<not> valid ! i
              then markLoop FirstDef FirstNotDef LoadSize (Suc i) valid False
         else markLoop FirstDef FirstNotDef LoadSize (Suc i) valid lf)
      else Ok (valid, lf))"
  by pat_completeness auto
termination
  by (relation "measure (\<lambda>(FirstDef, FirstNotDef, LoadSize, i, valid, lf). LoadSize - i)") auto

declare markLoop.simps [simp del]

text \<open>
  \<^verbatim>\<open>ReadDataFromGlobal\<close> is LLVM's: \<open>rdfg c off n\<close> is its effect on a zeroed buffer of
  \<open>n\<close> bytes, \<open>None\<close> when it returns false. \<open>fitBuf\<close> keeps the buffer at \<open>n\<close>
  bytes whatever the parameter returns.
\<close>

definition fitBuf :: "nat \<Rightarrow> 8 word list \<Rightarrow> 8 word list" where
  "fitBuf n bs = take n bs @ replicate (n - length bs) 0"

text \<open>
  \<^verbatim>\<open>combineWith\<close>. It returns the flag, the error string, and the two objects it may
  have changed, \<^verbatim>\<open>*this\<close> and \<open>Other\<close>. \<open>asConstant v\<close> is
  \<^verbatim>\<open>dyn_cast_or_null<Constant>(v.getVal())\<close>. When \<open>FirstNotDef < FirstDef\<close> the
  length \<open>FirstNotDef - FirstDef\<close> wraps to almost \<open>2^64\<close>: the \<^verbatim>\<open>alloca\<close> of
  that size, or else the copy loop running over that many indices, leaves the memory of
  the program. A null \<^verbatim>\<open>Other.partialBuf\<close> is an array without elements.
\<close>

definition combineWith ::
  "('v \<Rightarrow> 'c option) \<Rightarrow> ('c \<Rightarrow> nat \<Rightarrow> nat \<Rightarrow> 8 word list option) \<Rightarrow> (nat \<Rightarrow> 8 word) \<Rightarrow>
   ('v, 'c) PartialVal \<Rightarrow> ('v, 'c) PartialVal \<Rightarrow> nat \<Rightarrow> nat \<Rightarrow> nat \<Rightarrow> string \<Rightarrow>
   (bool \<times> string \<times> ('v, 'c) PartialVal \<times> ('v, 'c) PartialVal) outcome"
where
  "combineWith asConstant rdfg fresh this Other FirstDef FirstNotDef LoadSize error =
     (if isEmpty this \<and> FirstDef = 0 \<and> sub64 FirstNotDef FirstDef = LoadSize
      then (case assign fresh Other of
              AssertFail \<Rightarrow> AssertFail
            | Crash \<Rightarrow> Crash
            | Ok this' \<Rightarrow> Ok (True, error, this', Other))
      else
        let this1 = (if isEmpty this then initByteArray fresh LoadSize this else this) in
        if \<not> isByteArray this1 then AssertFail
        else
          let TotalC = (case TotalIV Other of None \<Rightarrow> None | Some iv \<Rightarrow> asConstant (V iv)) in
          if isTotal Other \<and> TotalC = None then Ok (False, ''PP2'', this1, Other)
          else
            let Other1 = (if isTotal Other
                          then Other\<lparr>C := TotalC, ReadOffset := 0, type := PVPartial\<rparr>
                          else Other);
                n = sub64 FirstNotDef FirstDef;
                temp = (if isPartial Other1
                        then (case C Other1 of
                                None \<Rightarrow> Crash
                              | Some c \<Rightarrow>
                                  if FirstNotDef < FirstDef then Crash
                                  else Ok (map_option (fitBuf n) (rdfg c (ReadOffset Other1) n)))
                        else Ok (Some (case partialBuf Other1 of None \<Rightarrow> [] | Some b \<Rightarrow> b)))
            in
            case temp of
              AssertFail \<Rightarrow> AssertFail
            | Crash \<Rightarrow> Crash
            | Ok None \<Rightarrow> Ok (False, ''RDFG'', this1, Other1)
            | Ok (Some tempBuf) \<Rightarrow>
                if \<not> (FirstDef < partialBufBytes this1) \<or>
                   \<not> (FirstNotDef \<le> partialBufBytes this1) then AssertFail
                else if FirstNotDef < FirstDef then Crash
                else
                  (case (partialBuf this1, partialValidBuf this1) of
                     (Some buf, Some valid) \<Rightarrow>
                       (case copyLoop valid tempBuf FirstDef [0 ..< n] buf of
                          AssertFail \<Rightarrow> AssertFail
                        | Crash \<Rightarrow> Crash
                        | Ok buf' \<Rightarrow>
                            (case markLoop FirstDef FirstNotDef LoadSize 0 valid True of
                               AssertFail \<Rightarrow> AssertFail
                             | Crash \<Rightarrow> Crash
                             | Ok (valid', lf) \<Rightarrow>
                                 Ok (True, error,
                                     this1\<lparr>partialBuf := Some buf',
                                           partialValidBuf := Some valid',
                                           loadFinished := lf\<rparr>,
                                     Other1)))
                   | _ \<Rightarrow> Crash))"


text \<open>
  The reading of the validity mask that the specification gives: every byte of the
  requested range \<open>[0, LoadSize)\<close> is marked defined.
\<close>

definition allBytesDefined :: "nat \<Rightarrow> ('v, 'c) PartialVal \<Rightarrow> bool" where
  "allBytesDefined LoadSize pv =
     (case partialValidBuf pv of
        None \<Rightarrow> False
      | Some valid \<Rightarrow> LoadSize \<le> length valid \<and> list_all (\<lambda>b. b) (take LoadSize valid))"


text \<open>
  The invariant of the specification for one value and a request of \<open>LoadSize\<close> bytes:
  \<^verbatim>\<open>isComplete()\<close> holds exactly when the value is in a lightweight form or every
  byte of the request is marked defined.
\<close>

definition completeIffDefined :: "nat \<Rightarrow> ('v, 'c) PartialVal \<Rightarrow> bool" where
  "completeIffDefined LoadSize pv =
     (isComplete pv \<longleftrightarrow> isTotal pv \<or> isPartial pv \<or> allBytesDefined LoadSize pv)"

text \<open>Two byte arrays for the examples: four bytes with the first defined, and a source of two bytes.\<close>

definition pvA :: "(nat, nat) PartialVal" where
  "pvA = \<lparr>type = PVByteArray, TotalIV = None, TotalIVType = ValSetTypeUnknown, C = None,
          ReadOffset = 0, partialBuf = Some [0xAA, 0, 0, 0, 0, 0, 0, 0],
          partialValidBuf = Some [True, False, False, False], partialBufBytes = 4,
          loadFinished = False\<rparr>"

definition pvB :: "(nat, nat) PartialVal" where
  "pvB = \<lparr>type = PVByteArray, TotalIV = None, TotalIVType = ValSetTypeUnknown, C = None,
          ReadOffset = 0, partialBuf = Some [1, 2, 0, 0, 0, 0, 0, 0],
          partialValidBuf = Some [True, True], partialBufBytes = 2,
          loadFinished = True\<rparr>"

text \<open>An empty value, as the default constructor leaves it.\<close>

definition pvE :: "(nat, nat) PartialVal" where
  "pvE = \<lparr>type = PVEmpty, TotalIV = None, TotalIVType = ValSetTypeUnknown, C = None,
          ReadOffset = 0, partialBuf = None, partialValidBuf = None, partialBufBytes = 0,
          loadFinished = False\<rparr>"

subsection \<open>The two loops\<close>

lemma copyLoop_keeps:
  assumes "copyLoop valid tempBuf FirstDef idxs buf = Ok buf'"
  shows "length buf' = length buf \<and>
         (\<forall>j < length buf. (j < length valid \<and> valid ! j) \<or> j \<notin> (\<lambda>i. FirstDef + i) ` set idxs
              \<longrightarrow> buf' ! j = buf ! j)"
  using assms
proof (induction idxs arbitrary: buf)
  case Nil
  then show ?case by simp
next
  case (Cons i rest)
  show ?case
  proof (cases "valid ! (FirstDef + i)")
    case True
    with Cons.prems have "copyLoop valid tempBuf FirstDef rest buf = Ok buf'"
      by (simp split: if_splits)
    from Cons.IH [OF this] show ?thesis by auto
  next
    case False
    with Cons.prems have step: "copyLoop valid tempBuf FirstDef rest (buf[FirstDef + i := tempBuf ! i]) = Ok buf'"
      by (simp split: if_splits)
    have ne: "FirstDef + i \<noteq> j" if "valid ! j" for j
      using that False by auto
    from Cons.IH [OF step] show ?thesis using ne
      by (auto simp: nth_list_update)
  qed
qed

lemma markLoop_result:
  assumes "markLoop FirstDef FirstNotDef LoadSize i valid lf = Ok (valid', lf')"
  shows "length valid' = length valid \<and>
         (\<forall>k < i. k < length valid \<longrightarrow> valid' ! k = valid ! k) \<and>
         (lf' \<longleftrightarrow> lf \<and> (\<forall>k. i \<le> k \<and> k < LoadSize \<longrightarrow> k < length valid \<and> valid' ! k))"
  using assms
proof (induction FirstDef FirstNotDef LoadSize i valid lf rule: markLoop.induct)
  case (1 FirstDef FirstNotDef LoadSize i valid lf)
  show ?case
  proof (cases "i < LoadSize \<and> (lf \<or> i < FirstNotDef)")
    case False
    with "1.prems" show ?thesis
      by (auto simp: markLoop.simps [of FirstDef FirstNotDef LoadSize i valid lf])
  next
    case go: True
    from go "1.prems" have inb: "i < length valid"
      by (auto simp: markLoop.simps [of FirstDef FirstNotDef LoadSize i valid lf] split: if_splits)
    then have inb': "\<not> length valid \<le> i" by simp
    show ?thesis
    proof (cases "FirstDef \<le> i \<and> i < FirstNotDef")
      case True
      with go inb "1.prems"
      have r: "markLoop FirstDef FirstNotDef LoadSize (Suc i) (valid[i := True]) lf = Ok (valid', lf')"
        by (simp add: markLoop.simps [of FirstDef FirstNotDef LoadSize i valid lf])
      from "1.IH"(1) [OF go _ True r] inb
      have ih: "length valid' = length valid"
        "\<forall>k < Suc i. k < length valid \<longrightarrow> valid' ! k = (valid[i := True]) ! k"
        "lf' \<longleftrightarrow> lf \<and> (\<forall>k. Suc i \<le> k \<and> k < LoadSize \<longrightarrow> k < length valid \<and> valid' ! k)"
        by auto
      from ih(2) inb have vi: "valid' ! i" by simp
      from ih(2) have pre: "\<forall>k < i. k < length valid \<longrightarrow> valid' ! k = valid ! k" by simp
      have "(\<forall>k. i \<le> k \<and> k < LoadSize \<longrightarrow> k < length valid \<and> valid' ! k) \<longleftrightarrow>
            (\<forall>k. Suc i \<le> k \<and> k < LoadSize \<longrightarrow> k < length valid \<and> valid' ! k)"
        using vi inb by (metis Suc_leI le_neq_implies_less Suc_leD)
      with ih(1,3) pre show ?thesis by simp
    next
      case notin: False
      show ?thesis
      proof (cases "valid ! i")
        case True
        from "1.prems"
        have r: "markLoop FirstDef FirstNotDef LoadSize (Suc i) valid lf = Ok (valid', lf')"
          by (simp add: markLoop.simps [of FirstDef FirstNotDef LoadSize i valid lf] go inb' notin True)
        from "1.IH"(3) [OF go _ notin _ r] inb True
        have ih: "length valid' = length valid"
          "\<forall>k < Suc i. k < length valid \<longrightarrow> valid' ! k = valid ! k"
          "lf' \<longleftrightarrow> lf \<and> (\<forall>k. Suc i \<le> k \<and> k < LoadSize \<longrightarrow> k < length valid \<and> valid' ! k)"
          by auto
        from ih(2) inb True have vi: "valid' ! i" by simp
        have "(\<forall>k. i \<le> k \<and> k < LoadSize \<longrightarrow> k < length valid \<and> valid' ! k) \<longleftrightarrow>
              (\<forall>k. Suc i \<le> k \<and> k < LoadSize \<longrightarrow> k < length valid \<and> valid' ! k)"
          using vi inb by (metis Suc_leI le_neq_implies_less Suc_leD)
        with ih show ?thesis by simp
      next
        case False
        from "1.prems"
        have r: "markLoop FirstDef FirstNotDef LoadSize (Suc i) valid False = Ok (valid', lf')"
          by (simp add: markLoop.simps [of FirstDef FirstNotDef LoadSize i valid lf] go inb' notin False)
        from "1.IH"(2) [OF go _ notin _ r] inb False
        have ih: "length valid' = length valid"
          "\<forall>k < Suc i. k < length valid \<longrightarrow> valid' ! k = valid ! k"
          "\<not> lf'"
          by auto
        from ih(2) inb False have vi: "\<not> valid' ! i" by simp
        from go have "i < LoadSize" by simp
        with vi ih show ?thesis by auto
      qed
    qed
  qed
qed

lemma set_upt_image: "j \<notin> (\<lambda>i. FirstDef + i) ` set [0 ..< n] \<longleftrightarrow> j < FirstDef \<or> FirstDef + n \<le> j"
proof
  assume a: "j \<notin> (\<lambda>i. FirstDef + i) ` set [0 ..< n]"
  show "j < FirstDef \<or> FirstDef + n \<le> j"
  proof (rule ccontr)
    assume "\<not> (j < FirstDef \<or> FirstDef + n \<le> j)"
    then have "j - FirstDef \<in> set [0 ..< n]" "j = FirstDef + (j - FirstDef)" by auto
    then have "j \<in> (\<lambda>i. FirstDef + i) ` set [0 ..< n]" by (rule_tac image_eqI)
    with a show False by simp
  qed
next
  assume "j < FirstDef \<or> FirstDef + n \<le> j"
  then show "j \<notin> (\<lambda>i. FirstDef + i) ` set [0 ..< n]" by auto
qed

lemma sub64_le: "b \<le> a \<Longrightarrow> sub64 a b = a - b"
  by (simp add: sub64_def)


lemma combineWith_pvE_pvB:
  "combineWith (\<lambda>v. None) (\<lambda>c off n. None) (\<lambda>i. 0) pvE pvB 0 2 2 [] = Ok (True, [], pvB, pvB)"
  by (simp add: combineWith_def assign_def pvE_def pvB_def isEmpty_def sub64_def Let_def upt_rec)

lemma combineWith_pvA_pvB:
  "combineWith (\<lambda>v. None) (\<lambda>c off n. None) (\<lambda>i. 0) pvA pvB 0 2 4 [] =
   Ok (True, [], pvA\<lparr>partialBuf := Some [0xAA, 2, 0, 0, 0, 0, 0, 0],
                      partialValidBuf := Some [True, True, False, False]\<rparr>, pvB)"
  by (simp add: combineWith_def pvA_def pvB_def isEmpty_def isByteArray_def isTotal_def isPartial_def
      sub64_def markLoop.simps upt_rec)

subsection \<open>First writer wins\<close>

text \<open>
  Claim C3. Let \<open>this\<close> be in byte-array form with buffer \<open>buf\<close> and validity mask
  \<open>valid\<close>. Whenever \<^verbatim>\<open>combineWith\<close> returns, with true or with false, every byte
  that was marked defined, and every byte outside \<open>[FirstDef, FirstNotDef)\<close>, has its
  previous contents; when it returns false, \<open>this\<close> is unchanged altogether. When
  \<open>Other\<close> is a total value that is not a constant, the call returns false with the
  error \<open>PP2\<close> and leaves \<open>this\<close> and \<open>Other\<close> as they were.
\<close>

theorem combineWith_first_writer_wins:
  assumes ba: "isByteArray this"
    and pb: "partialBuf this = Some buf"
    and pv: "partialValidBuf this = Some valid"
  shows "(\<forall>ret error' this' Other'.
            combineWith asConstant rdfg fresh this Other FirstDef FirstNotDef LoadSize error
              = Ok (ret, error', this', Other') \<longrightarrow>
            (\<exists>buf'. partialBuf this' = Some buf' \<and> length buf' = length buf \<and>
               (\<forall>j < length buf.
                   (j < length valid \<and> valid ! j) \<or> j < FirstDef \<or> FirstNotDef \<le> j
                   \<longrightarrow> buf' ! j = buf ! j)) \<and>
            (\<not> ret \<longrightarrow> this' = this)) \<and>
         (isTotal Other \<and> (case TotalIV Other of None \<Rightarrow> None | Some iv \<Rightarrow> asConstant (V iv)) = None
            \<longrightarrow> combineWith asConstant rdfg fresh this Other FirstDef FirstNotDef LoadSize error
                  = Ok (False, ''PP2'', this, Other))"
proof -
  have ne: "\<not> isEmpty this" using ba by (simp add: isEmpty_def isByteArray_def)
  have fail: "this' = this"
    if r: "combineWith asConstant rdfg fresh this Other FirstDef FirstNotDef LoadSize error
              = Ok (False, error', this', Other')" for error' this' Other'
    using r ne ba pb pv
    by (auto simp: combineWith_def Let_def split: if_splits outcome.splits option.splits prod.splits)
  have keep: "\<exists>buf'. partialBuf this' = Some buf' \<and> length buf' = length buf \<and>
               (\<forall>j < length buf.
                   (j < length valid \<and> valid ! j) \<or> j < FirstDef \<or> FirstNotDef \<le> j
                   \<longrightarrow> buf' ! j = buf ! j)"
    if r: "combineWith asConstant rdfg fresh this Other FirstDef FirstNotDef LoadSize error
              = Ok (ret, error', this', Other')" for ret error' this' Other'
  proof (cases ret)
    case False
    with r fail have "this' = this" by simp
    with pb show ?thesis by simp
  next
    case True
    from r True ne ba pb pv obtain tempBuf buf' valid' lf where
      le: "FirstDef \<le> FirstNotDef"
      and cl: "copyLoop valid tempBuf FirstDef [0 ..< sub64 FirstNotDef FirstDef] buf = Ok buf'"
      and t': "this' = this\<lparr>partialBuf := Some buf', partialValidBuf := Some valid', loadFinished := lf\<rparr>"
      by (auto simp: combineWith_def Let_def split: if_splits outcome.splits option.splits prod.splits)
    from le have n: "sub64 FirstNotDef FirstDef = FirstNotDef - FirstDef"
      by (simp add: sub64_le)
    from copyLoop_keeps [OF cl] le show ?thesis
      unfolding t' n set_upt_image by auto
  qed
  have pp2: "combineWith asConstant rdfg fresh this Other FirstDef FirstNotDef LoadSize error
                  = Ok (False, ''PP2'', this, Other)"
    if "isTotal Other \<and> (case TotalIV Other of None \<Rightarrow> None | Some iv \<Rightarrow> asConstant (V iv)) = None"
    using that ba by (simp add: combineWith_def Let_def isEmpty_def isByteArray_def)
  show ?thesis
  proof (intro conjI allI impI)
    fix ret error' this' Other'
    assume r: "combineWith asConstant rdfg fresh this Other FirstDef FirstNotDef LoadSize error
              = Ok (ret, error', this', Other')"
    from keep [OF r]
    show "\<exists>buf'. partialBuf this' = Some buf' \<and> length buf' = length buf \<and>
               (\<forall>j < length buf.
                   (j < length valid \<and> valid ! j) \<or> j < FirstDef \<or> FirstNotDef \<le> j
                   \<longrightarrow> buf' ! j = buf ! j)" .
    assume "\<not> ret"
    with r fail show "this' = this" by simp
  next
    assume "isTotal Other \<and> (case TotalIV Other of None \<Rightarrow> None | Some iv \<Rightarrow> asConstant (V iv)) = None"
    then show "combineWith asConstant rdfg fresh this Other FirstDef FirstNotDef LoadSize error
                  = Ok (False, ''PP2'', this, Other)" by (rule pp2)
  qed
qed

text \<open>
  Offering the bytes \<open>1, 2\<close> for \<open>[0, 2)\<close> to a buffer whose byte 0 is already
  defined as \<open>0xAA\<close>: byte 0 stays, byte 1 is taken.
\<close>

theorem combineWith_first_writer_wins_witness:
  "isByteArray pvA \<and>
   partialBuf pvA = Some [0xAA, 0, 0, 0, 0, 0, 0, 0] \<and>
   partialValidBuf pvA = Some [True, False, False, False] \<and>
   combineWith (\<lambda>v. None) (\<lambda>c off n. None) (\<lambda>i. 0) pvA pvB 0 2 4 [] =
     Ok (True, [], pvA\<lparr>partialBuf := Some [0xAA, 2, 0, 0, 0, 0, 0, 0],
                        partialValidBuf := Some [True, True, False, False]\<rparr>, pvB) \<and>
   (\<exists>buf'. partialBuf (pvA\<lparr>partialBuf := Some [0xAA, 2, 0, 0, 0, 0, 0, 0],
                             partialValidBuf := Some [True, True, False, False]\<rparr>) = Some buf' \<and>
           buf' ! 0 = 0xAA)"
proof -
  have h1: "isByteArray pvA" by (simp add: pvA_def isByteArray_def)
  have h2: "partialBuf pvA = Some [0xAA, 0, 0, 0, 0, 0, 0, 0]" by (simp add: pvA_def)
  have h3: "partialValidBuf pvA = Some [True, False, False, False]" by (simp add: pvA_def)
  note T = combineWith_first_writer_wins [OF h1 h2 h3,
      of "\<lambda>v. None" "\<lambda>c off n. None" "\<lambda>i. 0" pvB 0 2 4 "[]"]
  from T [THEN conjunct1, rule_format, OF combineWith_pvA_pvB, THEN conjunct1]
  obtain buf' where
    b: "partialBuf (pvA\<lparr>partialBuf := Some [0xAA, 2, 0, 0, 0, 0, 0, 0],
                        partialValidBuf := Some [True, True, False, False]\<rparr>) = Some buf'"
    and k: "\<forall>j < length [0xAA, 0, 0, 0, 0, 0, 0, 0 :: 8 word].
               (j < length [True, False, False, False] \<and> [True, False, False, False] ! j)
               \<or> j < 0 \<or> 2 \<le> j
               \<longrightarrow> buf' ! j = [0xAA, 0, 0, 0, 0, 0, 0, 0] ! j"
    by blast
  from k [rule_format, of 0] have "buf' ! 0 = 0xAA" by simp
  with b h1 h2 h3 combineWith_pvA_pvB show ?thesis by blast
qed

subsection \<open>Completeness\<close>

lemma all_take_iff:
  "(n \<le> length vs \<and> list_all (\<lambda>b. b) (take n vs)) \<longleftrightarrow> (\<forall>k < n. k < length vs \<and> vs ! k)"
proof
  assume a: "n \<le> length vs \<and> list_all (\<lambda>b. b) (take n vs)"
  then have "\<forall>k < n. take n vs ! k" by (simp add: list_all_length)
  with a show "\<forall>k < n. k < length vs \<and> vs ! k" by auto
next
  assume b: "\<forall>k < n. k < length vs \<and> vs ! k"
  have "n \<le> length vs"
  proof (cases n)
    case 0 then show ?thesis by simp
  next
    case (Suc m)
    with b have "m < length vs" by simp
    with Suc show ?thesis by simp
  qed
  with b show "n \<le> length vs \<and> list_all (\<lambda>b. b) (take n vs)"
    by (simp add: list_all_length)
qed

lemma combineWith_bytes_complete:
  assumes r: "combineWith asConstant rdfg fresh this Other FirstDef FirstNotDef LoadSize error
              = Ok (True, error', this', Other')"
    and na: "\<not> (isEmpty this \<and> FirstDef = 0 \<and> sub64 FirstNotDef FirstDef = LoadSize)"
  shows "isByteArray this' \<and> (loadFinished this' \<longleftrightarrow> allBytesDefined LoadSize this')"
proof -
  from r na obtain this1 valid valid' buf' lf where
    ba: "isByteArray this1"
    and ml: "markLoop FirstDef FirstNotDef LoadSize 0 valid True = Ok (valid', lf)"
    and t': "this' = this1\<lparr>partialBuf := Some buf', partialValidBuf := Some valid', loadFinished := lf\<rparr>"
    by (auto simp: combineWith_def Let_def split: if_splits outcome.splits option.splits prod.splits)
  from markLoop_result [OF ml]
  have len: "length valid' = length valid"
    and lf: "lf \<longleftrightarrow> (\<forall>k < LoadSize. k < length valid \<and> valid' ! k)" by auto
  have "allBytesDefined LoadSize this' \<longleftrightarrow> (\<forall>k < LoadSize. k < length valid' \<and> valid' ! k)"
    by (simp add: allBytesDefined_def t' all_take_iff)
  with lf len ba show ?thesis
    by (simp add: t' isByteArray_def)
qed

lemma assign_completeIffDefined:
  assumes a: "assign fresh Other = Ok this'"
    and c: "completeIffDefined LoadSize Other"
    and s: "isTotal Other \<or> isPartial Other \<or> partialValidBuf Other = None \<or>
            LoadSize \<le> partialBufBytes Other"
  shows "completeIffDefined LoadSize this'"
proof -
  let ?n = "partialBufBytes Other"
  from a have t: "this' = Other\<lparr>partialBuf :=
                       map_option (\<lambda>b. take ?n b @ map fresh [?n ..< 8 * ((?n + 7) div 8)]) (partialBuf Other),
                     partialValidBuf := map_option (take ?n) (partialValidBuf Other)\<rparr>"
    and len: "\<forall>vb. partialValidBuf Other = Some vb \<longrightarrow> ?n \<le> length vb"
    by (auto simp: assign_def Let_def split: if_splits option.splits)
  have same: "isComplete this' = isComplete Other" "isTotal this' = isTotal Other"
    "isPartial this' = isPartial Other"
    by (simp_all add: t isComplete_def isTotal_def isPartial_def)
  show ?thesis
  proof (cases "isTotal Other \<or> isPartial Other")
    case True
    with same show ?thesis by (auto simp: completeIffDefined_def isComplete_def)
  next
    case lw: False
    have "allBytesDefined LoadSize this' = allBytesDefined LoadSize Other"
    proof (cases "partialValidBuf Other")
      case None
      then show ?thesis by (simp add: t allBytesDefined_def)
    next
      case (Some vb)
      with s lw have le: "LoadSize \<le> ?n" by simp
      from len Some have "?n \<le> length vb" by simp
      with le Some show ?thesis
        by (simp add: t allBytesDefined_def min_def take_take)
    qed
    with c same show ?thesis by (simp add: completeIffDefined_def)
  qed
qed

text \<open>
  Claim C8, as the code has it. A lightweight value, total or partial, is complete. A
  freshly constructed byte array of one byte or more is not complete and has no byte marked.
  After every successful \<^verbatim>\<open>combineWith\<close> for a request of \<open>LoadSize\<close> bytes,
  \<^verbatim>\<open>isComplete()\<close> holds exactly when the result is lightweight or every byte of
  \<open>[0, LoadSize)\<close> is marked defined. An empty value that adopts \<open>Other\<close> whole becomes a
  copy of \<open>Other\<close>, and there the property is inherited from \<open>Other\<close>: it is assumed of
  \<open>Other\<close>, in that case only, together with \<open>Other\<close> being lightweight, having no
  validity mask, or recording at least \<open>LoadSize\<close> bytes.
\<close>

theorem isComplete_iff_all_defined:
  "(isTotal pv \<or> isPartial pv \<longrightarrow> completeIffDefined n pv) \<and>
   (0 < n \<longrightarrow> completeIffDefined n (PartialVal_bytes fresh n)) \<and>
   (combineWith asConstant rdfg fresh this Other FirstDef FirstNotDef LoadSize error
              = Ok (True, error', this', Other') \<longrightarrow>
    (isEmpty this \<and> FirstDef = 0 \<and> sub64 FirstNotDef FirstDef = LoadSize \<longrightarrow>
       completeIffDefined LoadSize Other \<and>
       (isTotal Other \<or> isPartial Other \<or> partialValidBuf Other = None \<or>
        LoadSize \<le> partialBufBytes Other)) \<longrightarrow>
    completeIffDefined LoadSize this')"
proof (intro conjI impI)
  show "completeIffDefined n pv" if "isTotal pv \<or> isPartial pv"
    using that by (auto simp: completeIffDefined_def isComplete_def)
  show "completeIffDefined n (PartialVal_bytes fresh n)" if "0 < n"
    using that
    by (cases n) (simp_all add: completeIffDefined_def PartialVal_bytes_def initByteArray_def isComplete_def
        isPartial_def isTotal_def allBytesDefined_def)
  show "completeIffDefined LoadSize this'"
    if r: "combineWith asConstant rdfg fresh this Other FirstDef FirstNotDef LoadSize error
              = Ok (True, error', this', Other')"
      and h: "isEmpty this \<and> FirstDef = 0 \<and> sub64 FirstNotDef FirstDef = LoadSize \<longrightarrow>
       completeIffDefined LoadSize Other \<and>
       (isTotal Other \<or> isPartial Other \<or> partialValidBuf Other = None \<or>
        LoadSize \<le> partialBufBytes Other)"
  proof (cases "isEmpty this \<and> FirstDef = 0 \<and> sub64 FirstNotDef FirstDef = LoadSize")
    case True
    then have "combineWith asConstant rdfg fresh this Other FirstDef FirstNotDef LoadSize error
                 = (case assign fresh Other of
                      AssertFail \<Rightarrow> AssertFail
                    | Crash \<Rightarrow> Crash
                    | Ok this' \<Rightarrow> Ok (True, error, this', Other))"
      unfolding combineWith_def by (rule if_P)
    with r have "assign fresh Other = Ok this'" by (auto split: outcome.splits)
    from assign_completeIffDefined [OF this] True h show ?thesis by blast
  next
    case False
    from combineWith_bytes_complete [OF r False] show ?thesis
      by (simp add: completeIffDefined_def isComplete_def isByteArray_def isTotal_def isPartial_def)
  qed
qed

text \<open>
  The combination of the example leaves bytes 2 and 3 undefined: the result is not complete.
  An empty value that is offered the two bytes of the second example for a request of two
  bytes adopts it and is complete; a reference into a constant is complete.
\<close>

theorem isComplete_iff_all_defined_witness:
  "(0::nat) < 4 \<and>
   combineWith (\<lambda>v. None) (\<lambda>c off n. None) (\<lambda>i. 0) pvA pvB 0 2 4 [] =
     Ok (True, [], pvA\<lparr>partialBuf := Some [0xAA, 2, 0, 0, 0, 0, 0, 0],
                        partialValidBuf := Some [True, True, False, False]\<rparr>, pvB) \<and>
   \<not> isEmpty pvA \<and>
   completeIffDefined 4 (pvA\<lparr>partialBuf := Some [0xAA, 2, 0, 0, 0, 0, 0, 0],
                              partialValidBuf := Some [True, True, False, False]\<rparr>) \<and>
   completeIffDefined 4 (PartialVal_bytes (\<lambda>i. 0) 4 :: (nat, nat) PartialVal) \<and>
   isPartial (getPartial 3 0 :: (nat, nat) PartialVal) \<and>
   completeIffDefined 4 (getPartial 3 0 :: (nat, nat) PartialVal) \<and>
   isEmpty pvE \<and> sub64 2 0 = 2 \<and> completeIffDefined 2 pvB \<and> 2 \<le> partialBufBytes pvB \<and>
   combineWith (\<lambda>v. None) (\<lambda>c off n. None) (\<lambda>i. 0) pvE pvB 0 2 2 [] = Ok (True, [], pvB, pvB) \<and>
   isComplete pvB \<and> allBytesDefined 2 pvB"
proof -
  have ne: "\<not> isEmpty pvA" by (simp add: pvA_def isEmpty_def)
  have pos: "(0::nat) < 4" by simp
  have ip: "isPartial (getPartial 3 0 :: (nat, nat) PartialVal)"
    by (simp add: getPartial_def isPartial_def)
  have e: "isEmpty pvE" by (simp add: pvE_def isEmpty_def)
  have s: "sub64 2 0 = 2" by (simp add: sub64_def)
  have cb: "isComplete pvB" "allBytesDefined 2 pvB"
    by (simp_all add: pvB_def isComplete_def allBytesDefined_def)
  then have cB: "completeIffDefined 2 pvB" by (simp add: completeIffDefined_def)
  have le: "2 \<le> partialBufBytes pvB" by (simp add: pvB_def)
  note T = isComplete_iff_all_defined [of _ _ "\<lambda>i. 0" "\<lambda>v. None" "\<lambda>c off n. None"]
  from T [of "getPartial 3 0" 4 pvA pvB 0 2 4 "[]" "[]"
      "pvA\<lparr>partialBuf := Some [0xAA, 2, 0, 0, 0, 0, 0, 0],
           partialValidBuf := Some [True, True, False, False]\<rparr>" pvB]
    combineWith_pvA_pvB ne pos ip
  have a: "completeIffDefined 4 (pvA\<lparr>partialBuf := Some [0xAA, 2, 0, 0, 0, 0, 0, 0],
                              partialValidBuf := Some [True, True, False, False]\<rparr>)"
    and b: "completeIffDefined 4 (PartialVal_bytes (\<lambda>i. 0) 4 :: (nat, nat) PartialVal)"
    and c: "completeIffDefined 4 (getPartial 3 0 :: (nat, nat) PartialVal)"
    by blast+
  from T [of "getPartial 3 0" 4 pvE pvB 0 2 2 "[]" "[]" pvB pvB] combineWith_pvE_pvB e s cB le
  have d: "completeIffDefined 2 pvB" by blast
  from pos combineWith_pvA_pvB ne a b ip c e s cB le combineWith_pvE_pvB cb show ?thesis by blast
qed

text \<open>
  Claim C8 as stated fails for a freshly constructed byte array of no bytes: every byte
  of the empty request is marked defined, yet \<^verbatim>\<open>isComplete()\<close> is false, because
  \<^verbatim>\<open>initByteArray\<close> clears \<^verbatim>\<open>loadFinished\<close>.
\<close>

theorem isComplete_empty_request_counterexample:
  "allBytesDefined 0 (PartialVal_bytes (\<lambda>i. 0) 0 :: (nat, nat) PartialVal) \<and>
   \<not> isComplete (PartialVal_bytes (\<lambda>i. 0) 0 :: (nat, nat) PartialVal)"
  by (simp add: allBytesDefined_def PartialVal_bytes_def initByteArray_def isComplete_def
      isTotal_def isPartial_def)

section \<open>Type coercion of a value set\<close>







definition scalar7 :: "nat ImprovedValSetSingle" where
  "scalar7 = \<lparr>SetType = ValSetTypeScalar, Values = [\<lparr>V = 7, Offset = 0\<rparr>], Overdef = False\<rparr>"


subsection \<open>Conversion of a constant to bytes\<close>




lemma length_fitBuf [simp]: "length (fitBuf n bs) = n"
  by (simp add: fitBuf_def)












subsection \<open>Only a null pointer is built from bytes\<close>




section \<open>The copy-on-write tree\<close>

text \<open>
  The heap of the analysis holds the nodes of the copy-on-write trees. A pointer is an
  address, null is \<open>None\<close>. A node has a reference count and
  \<^verbatim>\<open>HEAPTREEORDER\<close> child pointers: at height 0 they point to value sets
  (\<^verbatim>\<open>ImprovedValSet\<close>), above to nodes. The reference count is declared in the
  header; it is taken to be an unsigned 32-bit counter.
\<close>

type_synonym addr = nat

record SharedTreeNode =
  refCount :: "32 word"
  children :: "addr option list"

text \<open>
  The state: the nodes, the value-set objects (of a type \<open>'vs\<close> that the tree code
  only passes to \<^verbatim>\<open>getReadableCopy\<close> and \<^verbatim>\<open>dropReference\<close>), and the next
  address that \<^verbatim>\<open>new\<close> hands out.
\<close>

record 'vs treeHeap =
  nodes :: "addr \<rightharpoonup> SharedTreeNode"
  valsets :: 'vs
  nextFree :: addr

text \<open>
  \<^verbatim>\<open>new SharedTreeNode()\<close>: a node with reference count 1 and null children
  (\<^verbatim>\<open>growToHeight\<close> and \<^verbatim>\<open>mergeHeaps\<close> rely on both). \<open>order\<close> is
  \<^verbatim>\<open>HEAPTREEORDER\<close>.
\<close>

definition newSharedTreeNode ::
  "nat \<Rightarrow> ('vs, 'm) treeHeap_scheme \<Rightarrow> addr \<times> ('vs, 'm) treeHeap_scheme"
where
  "newSharedTreeNode order s =
     (nextFree s,
      s\<lparr>nodes := (nodes s)(nextFree s \<mapsto> \<lparr>refCount = 1, children = replicate order None\<rparr>),
        nextFree := Suc (nextFree s)\<rparr>)"

text \<open>
  The loop of \<^verbatim>\<open>getWritableNode\<close> at height 0: slot \<open>i\<close> of the new node
  receives \<^verbatim>\<open>children[i]->getReadableCopy()\<close> when \<^verbatim>\<open>children[i]\<close> is not null.
  \<^verbatim>\<open>getReadableCopy\<close> is a virtual function of the value sets, declared in the
  header: given a pointer and the value-set objects it returns the pointer to the copy
  and the objects afterwards.
\<close>

primrec copyLeaves ::
  "(addr \<Rightarrow> 'vs \<Rightarrow> addr \<times> 'vs) \<Rightarrow> addr option list \<Rightarrow> 'vs \<Rightarrow> addr option list \<times> 'vs"
where
  "copyLeaves getReadableCopy [] vs = ([], vs)"
| "copyLeaves getReadableCopy (c # cs) vs =
     (case c of
        None \<Rightarrow>
          (case copyLeaves getReadableCopy cs vs of (r, vs') \<Rightarrow> (None # r, vs'))
      | Some p \<Rightarrow>
          (case getReadableCopy p vs of
             (p', vs1) \<Rightarrow>
               (case copyLeaves getReadableCopy cs vs1 of (r, vs2) \<Rightarrow> (Some p' # r, vs2))))"

text \<open>
  The loop above height 0: each non-null child has its reference count incremented (and
  is stored in the same slot of the new node). A child pointer that points to no node
  is an invalid access.
\<close>

primrec shareChildren ::
  "addr option list \<Rightarrow> (addr \<rightharpoonup> SharedTreeNode) \<Rightarrow> (addr \<rightharpoonup> SharedTreeNode) outcome"
where
  "shareChildren [] ns = Ok ns"
| "shareChildren (c # cs) ns =
     (case c of
        None \<Rightarrow> shareChildren cs ns
      | Some p \<Rightarrow>
          (case ns p of
             None \<Rightarrow> Crash
           | Some cn \<Rightarrow> shareChildren cs (ns(p \<mapsto> cn\<lparr>refCount := refCount cn + 1\<rparr>))))"

text \<open>
  \<^verbatim>\<open>SharedTreeNode::getWritableNode\<close>. The number of slots is read off the node.
  The new node starts with null children, so after either loop its slot \<open>i\<close> is
  filled exactly where the old slot is not null. The last step, \<^verbatim>\<open>--refCount\<close>,
  reads the count as the loops have left it.
\<close>

definition getWritableNode ::
  "(addr \<Rightarrow> 'vs \<Rightarrow> addr \<times> 'vs) \<Rightarrow> addr \<Rightarrow> nat \<Rightarrow> ('vs, 'm) treeHeap_scheme \<Rightarrow>
   (addr \<times> ('vs, 'm) treeHeap_scheme) outcome"
where
  "getWritableNode getReadableCopy this height s =
     (case nodes s this of
        None \<Rightarrow> Crash
      | Some n \<Rightarrow>
          if refCount n = 1 then Ok (this, s)
          else
            (case newSharedTreeNode (length (children n)) s of
               (newNode, s1) \<Rightarrow>
                 (case (if height = 0
                        then (case copyLeaves getReadableCopy (children n) (valsets s1) of
                                (cs', vs') \<Rightarrow>
                                  Ok (s1\<lparr>nodes := (nodes s1)(newNode \<mapsto>
                                               \<lparr>refCount = 1, children = cs'\<rparr>),
                                         valsets := vs'\<rparr>))
                        else (case shareChildren (children n) (nodes s1) of
                                AssertFail \<Rightarrow> AssertFail
                              | Crash \<Rightarrow> Crash
                              | Ok ns \<Rightarrow>
                                  (case ns newNode of
                                     None \<Rightarrow> Crash
                                   | Some nn \<Rightarrow>
                                       Ok (s1\<lparr>nodes := ns(newNode \<mapsto>
                                                    nn\<lparr>children := children n\<rparr>)\<rparr>)))) of
                    AssertFail \<Rightarrow> AssertFail
                  | Crash \<Rightarrow> Crash
                  | Ok s2 \<Rightarrow>
                      (case nodes s2 this of
                         None \<Rightarrow> Crash
                       | Some n2 \<Rightarrow>
                           Ok (newNode,
                               s2\<lparr>nodes := (nodes s2)(this \<mapsto> n2\<lparr>refCount := refCount n2 - 1\<rparr>)\<rparr>)))))"

text \<open>A heap for the examples: node 0 is shared by two owners and has node 1 as a child.\<close>

definition heap2 :: "unit treeHeap" where
  "heap2 = \<lparr>nodes = [0 \<mapsto> \<lparr>refCount = 2, children = [Some 1, None]\<rparr>,
                      1 \<mapsto> \<lparr>refCount = 1, children = [None, None]\<rparr>],
            valsets = (), nextFree = 2\<rparr>"

text \<open>
  A node of leaves for the examples: node 0 is shared by two owners and points to the value
  sets 7 and 8. The value-set state of this example is the list of the value sets copied so
  far, and the copy made when \<open>k\<close> copies exist is the value set \<open>100 + k\<close>.
\<close>

definition heapL :: "nat list treeHeap" where
  "heapL = \<lparr>nodes = [0 \<mapsto> \<lparr>refCount = 2, children = [Some 7, None, Some 8]\<rparr>],
            valsets = [], nextFree = 2\<rparr>"

subsection \<open>Breaking the sharing of a node\<close>

lemma shareChildren_result:
  assumes "\<forall>p. Some p \<in> set cs \<longrightarrow> p \<in> dom ns"
  shows "\<exists>ns'. shareChildren cs ns = Ok ns' \<and>
           (\<forall>a. ns' a = map_option (\<lambda>nd. nd\<lparr>refCount := refCount nd + of_nat (count_list cs (Some a))\<rparr>) (ns a))"
  using assms
proof (induction cs arbitrary: ns)
  case Nil
  show ?case by (simp add: option.map_ident)
next
  case (Cons c cs)
  show ?case
  proof (cases c)
    case None
    with Cons.prems have "\<forall>p. Some p \<in> set cs \<longrightarrow> p \<in> dom ns" by simp
    from Cons.IH [OF this] None show ?thesis by simp
  next
    case (Some p)
    with Cons.prems obtain cn where cn: "ns p = Some cn" by auto
    let ?ns1 = "ns(p \<mapsto> cn\<lparr>refCount := refCount cn + 1\<rparr>)"
    from Cons.prems have "\<forall>q. Some q \<in> set cs \<longrightarrow> q \<in> dom ?ns1" by auto
    from Cons.IH [OF this] obtain ns' where
      r: "shareChildren cs ?ns1 = Ok ns'"
      and v: "\<forall>a. ns' a = map_option (\<lambda>nd. nd\<lparr>refCount := refCount nd + of_nat (count_list cs (Some a))\<rparr>) (?ns1 a)"
      by blast
    have "\<forall>a. ns' a = map_option (\<lambda>nd. nd\<lparr>refCount := refCount nd + of_nat (count_list (c # cs) (Some a))\<rparr>) (ns a)"
    proof
      fix a
      show "ns' a = map_option (\<lambda>nd. nd\<lparr>refCount := refCount nd + of_nat (count_list (c # cs) (Some a))\<rparr>) (ns a)"
        using v [rule_format, of a] Some cn
        by (cases "a = p") (simp_all add: add.assoc add.commute)
    qed
    with r Some cn show ?thesis by simp
  qed
qed

lemma copyLeaves_None:
  "copyLeaves g (None # cs) vs = (None # fst (copyLeaves g cs vs), snd (copyLeaves g cs vs))"
  by (simp split: prod.splits)

lemma copyLeaves_Some:
  "copyLeaves g (Some p # cs) vs =
     (Some (fst (g p vs)) # fst (copyLeaves g cs (snd (g p vs))),
      snd (copyLeaves g cs (snd (g p vs))))"
  by (simp split: prod.splits)

lemma length_copyLeaves: "length (fst (copyLeaves g cs vs)) = length cs"
proof (induction cs arbitrary: vs)
  case Nil
  show ?case by simp
next
  case (Cons c cs)
  then show ?case
    by (cases c) (simp_all only: copyLeaves_None copyLeaves_Some fst_conv length_Cons)
qed

lemma nth_copyLeaves:
  assumes "i < length cs"
  shows "fst (copyLeaves g cs vs) ! i =
           (case cs ! i of
              None \<Rightarrow> None
            | Some p \<Rightarrow> Some (fst (g p (snd (copyLeaves g (take i cs) vs)))))"
  using assms
proof (induction cs arbitrary: vs i)
  case Nil
  then show ?case by simp
next
  case (Cons c cs)
  show ?case
  proof (cases i)
    case 0
    then show ?thesis
      by (cases c) (simp_all only: copyLeaves_None copyLeaves_Some, simp_all)
  next
    case (Suc j)
    with Cons.prems have j: "j < length cs" by simp
    show ?thesis
    proof (cases c)
      case None
      with Suc Cons.IH [OF j, of vs] show ?thesis
        by (simp only: copyLeaves_None, simp add: copyLeaves_None del: copyLeaves.simps cong: option.case_cong)
    next
      case (Some p)
      with Suc Cons.IH [OF j, of "snd (g p vs)"] show ?thesis
        by (simp only: copyLeaves_Some, simp add: copyLeaves_Some del: copyLeaves.simps cong: option.case_cong)
    qed
  qed
qed

lemma snd_copyLeaves:
  "snd (copyLeaves g cs vs) = fold (\<lambda>c vs. case c of None \<Rightarrow> vs | Some q \<Rightarrow> snd (g q vs)) cs vs"
proof (induction cs arbitrary: vs)
  case Nil
  show ?case by simp
next
  case (Cons c cs)
  then show ?case
    by (cases c) (simp_all only: copyLeaves_None copyLeaves_Some snd_conv fold_simps option.case)
qed

lemma getWritableNode_leaves:
  "getWritableNode (\<lambda>p vs. (100 + length vs, vs @ [p])) 0 0 heapL =
     Ok (2, heapL\<lparr>nodes := [0 \<mapsto> \<lparr>refCount = 1, children = [Some 7, None, Some 8]\<rparr>,
                              2 \<mapsto> \<lparr>refCount = 1, children = [Some 100, None, Some 101]\<rparr>],
                   valsets := [7, 8],
                   nextFree := 3\<rparr>)"
  by (auto simp: getWritableNode_def newSharedTreeNode_def heapL_def fun_upd_def)

text \<open>
  Claim C1. Let \<open>this\<close> be a node of a heap whose allocator has not yet handed out
  \<open>nextFree\<close>, and above height 0 let its children be nodes other than itself.
  With reference count 1, \<^verbatim>\<open>getWritableNode\<close> returns \<open>this\<close> and changes
  nothing. Otherwise it returns a node that was not allocated before, with reference
  count 1; the old node keeps its children and has its count decremented by exactly 1.
  At height 0 the leaves are copied from slot 0 upwards: slot \<open>i\<close> of the new node is
  null where the old slot is null, and else holds the pointer that \<^verbatim>\<open>getReadableCopy\<close>
  returns for the old leaf when called on the value sets as the copies of the slots below
  \<open>i\<close> have left them; the value sets afterwards are those left by the copies of all
  non-null slots in that order. Above height 0 the new node has the same children, the value
  sets are untouched, and every other node has its count raised by the number of slots of
  \<open>this\<close> that point to it and is otherwise unchanged.
\<close>

theorem getWritableNode_cow:
  assumes nd: "nodes s this = Some n"
    and wf: "\<forall>a \<in> dom (nodes s). a < nextFree s"
    and kids: "0 < height \<longrightarrow> (\<forall>p. Some p \<in> set (children n) \<longrightarrow> p \<in> dom (nodes s) \<and> p \<noteq> this)"
  shows
   "(refCount n = 1 \<longrightarrow> getWritableNode grc this height s = Ok (this, s)) \<and>
    (refCount n \<noteq> 1 \<longrightarrow>
       (\<exists>newNode s'. getWritableNode grc this height s = Ok (newNode, s') \<and>
          newNode \<notin> dom (nodes s) \<and>
          nodes s' this = Some (n\<lparr>refCount := refCount n - 1\<rparr>) \<and>
          (\<exists>nn. nodes s' newNode = Some nn \<and> refCount nn = 1 \<and>
             length (children nn) = length (children n) \<and>
             (if height = 0
              then (\<forall>i < length (children n).
                       children nn ! i =
                         (case children n ! i of
                            None \<Rightarrow> None
                          | Some p \<Rightarrow>
                              Some (fst (grc p
                                (fold (\<lambda>c vs. case c of None \<Rightarrow> vs | Some q \<Rightarrow> snd (grc q vs))
                                   (take i (children n)) (valsets s)))))) \<and>
                   valsets s' =
                     fold (\<lambda>c vs. case c of None \<Rightarrow> vs | Some q \<Rightarrow> snd (grc q vs))
                       (children n) (valsets s)
              else children nn = children n \<and> valsets s' = valsets s)) \<and>
          (\<forall>a m. a \<noteq> this \<longrightarrow> nodes s a = Some m \<longrightarrow>
               nodes s' a =
                 Some (if height = 0 then m
                       else m\<lparr>refCount := refCount m + of_nat (count_list (children n) (Some a))\<rparr>))))"
proof (intro conjI impI)
  assume "refCount n = 1"
  with nd show "getWritableNode grc this height s = Ok (this, s)"
    by (simp add: getWritableNode_def)
next
  assume rc: "refCount n \<noteq> 1"
  let ?new = "nextFree s"
  let ?step = "\<lambda>c vs. case c of None \<Rightarrow> vs | Some q \<Rightarrow> snd (grc q vs)"
  have fresh: "?new \<notin> dom (nodes s)" using wf by auto
  then have newthis: "?new \<noteq> this" using nd by auto
  show "\<exists>newNode s'. getWritableNode grc this height s = Ok (newNode, s') \<and>
          newNode \<notin> dom (nodes s) \<and>
          nodes s' this = Some (n\<lparr>refCount := refCount n - 1\<rparr>) \<and>
          (\<exists>nn. nodes s' newNode = Some nn \<and> refCount nn = 1 \<and>
             length (children nn) = length (children n) \<and>
             (if height = 0
              then (\<forall>i < length (children n).
                       children nn ! i =
                         (case children n ! i of
                            None \<Rightarrow> None
                          | Some p \<Rightarrow>
                              Some (fst (grc p (fold ?step (take i (children n)) (valsets s)))))) \<and>
                   valsets s' = fold ?step (children n) (valsets s)
              else children nn = children n \<and> valsets s' = valsets s)) \<and>
          (\<forall>a m. a \<noteq> this \<longrightarrow> nodes s a = Some m \<longrightarrow>
               nodes s' a =
                 Some (if height = 0 then m
                       else m\<lparr>refCount := refCount m + of_nat (count_list (children n) (Some a))\<rparr>))"
  proof (cases "height = 0")
    case True
    obtain cs' vs' where cl: "copyLeaves grc (children n) (valsets s) = (cs', vs')"
      by (cases "copyLeaves grc (children n) (valsets s)")
    have len: "length cs' = length (children n)"
      using length_copyLeaves [of grc "children n" "valsets s"] cl by simp
    have vs': "vs' = fold ?step (children n) (valsets s)"
      using snd_copyLeaves [of grc "children n" "valsets s"] cl by simp
    have nth: "\<forall>i < length (children n). cs' ! i =
                         (case children n ! i of
                            None \<Rightarrow> None
                          | Some p \<Rightarrow>
                              Some (fst (grc p (fold ?step (take i (children n)) (valsets s)))))"
      using nth_copyLeaves [of _ "children n" grc "valsets s"] cl
      by (simp add: snd_copyLeaves cong: option.case_cong)
    show ?thesis
      using nd rc True cl fresh newthis len nth vs'
      by (auto simp: getWritableNode_def newSharedTreeNode_def)
  next
    case False
    with kids have k: "\<forall>p. Some p \<in> set (children n) \<longrightarrow> p \<in> dom (nodes s) \<and> p \<noteq> this" by simp
    let ?ns1 = "(nodes s)(?new \<mapsto> \<lparr>refCount = 1, children = replicate (length (children n)) None\<rparr>)"
    from k have "\<forall>p. Some p \<in> set (children n) \<longrightarrow> p \<in> dom ?ns1" by auto
    from shareChildren_result [OF this] obtain ns where
      sc: "shareChildren (children n) ?ns1 = Ok ns"
      and v: "\<forall>a. ns a = map_option (\<lambda>m. m\<lparr>refCount := refCount m + of_nat (count_list (children n) (Some a))\<rparr>) (?ns1 a)"
      by blast
    from k fresh have c0new: "count_list (children n) (Some ?new) = 0"
      by (auto simp: count_list_0_iff)
    from k have c0this: "count_list (children n) (Some this) = 0"
      by (auto simp: count_list_0_iff)
    from v [rule_format, of ?new] c0new
    have nsnew: "ns ?new = Some \<lparr>refCount = 1, children = replicate (length (children n)) None\<rparr>"
      by simp
    from v [rule_format, of this] c0this newthis nd
    have nsthis: "ns this = Some n" by simp
    have others: "\<forall>a m. a \<noteq> this \<longrightarrow> nodes s a = Some m \<longrightarrow>
        ns a = Some (m\<lparr>refCount := refCount m + of_nat (count_list (children n) (Some a))\<rparr>)"
      using v fresh by (auto simp: dom_def)
    show ?thesis
      using nd rc False sc fresh newthis nsnew nsthis others
      by (auto simp: getWritableNode_def newSharedTreeNode_def)
  qed
qed

text \<open>
  Node 0 of the first example heap, at height 1: the new node is 2, node 1 is now shared.
  Node 0 of the second, at height 0: the leaves 7 and 8 are copied in this order, the copies
  are 100 and 101, and the null slot stays null.
\<close>

theorem getWritableNode_cow_witness:
  "nodes heap2 0 = Some \<lparr>refCount = 2, children = [Some 1, None]\<rparr> \<and>
   refCount \<lparr>refCount = 2, children = [Some 1, None]\<rparr> \<noteq> 1 \<and>
   getWritableNode (\<lambda>p vs. (p, vs)) 0 1 heap2 =
     Ok (2, heap2\<lparr>nodes := [0 \<mapsto> \<lparr>refCount = 1, children = [Some 1, None]\<rparr>,
                              1 \<mapsto> \<lparr>refCount = 2, children = [None, None]\<rparr>,
                              2 \<mapsto> \<lparr>refCount = 1, children = [Some 1, None]\<rparr>],
                   nextFree := 3\<rparr>) \<and>
   (\<exists>newNode s'. getWritableNode (\<lambda>p vs. (p, vs)) 0 1 heap2 = Ok (newNode, s') \<and>
      newNode \<notin> dom (nodes heap2) \<and>
      nodes s' 0 = Some \<lparr>refCount = 1, children = [Some 1, None]\<rparr>) \<and>
   nodes heapL 0 = Some \<lparr>refCount = 2, children = [Some 7, None, Some 8]\<rparr> \<and>
   getWritableNode (\<lambda>p vs. (100 + length vs, vs @ [p])) 0 0 heapL =
     Ok (2, heapL\<lparr>nodes := [0 \<mapsto> \<lparr>refCount = 1, children = [Some 7, None, Some 8]\<rparr>,
                              2 \<mapsto> \<lparr>refCount = 1, children = [Some 100, None, Some 101]\<rparr>],
                   valsets := [7, 8],
                   nextFree := 3\<rparr>) \<and>
   (\<exists>newNode s'. getWritableNode (\<lambda>p vs. (100 + length vs, vs @ [p])) 0 0 heapL = Ok (newNode, s') \<and>
      newNode \<notin> dom (nodes heapL) \<and>
      nodes s' 0 = Some \<lparr>refCount = 1, children = [Some 7, None, Some 8]\<rparr>)"
proof -
  have nd: "nodes heap2 0 = Some \<lparr>refCount = 2, children = [Some 1, None]\<rparr>"
    by (simp add: heap2_def)
  have wf: "\<forall>a \<in> dom (nodes heap2). a < nextFree heap2"
    by (simp add: heap2_def)
  have kids: "0 < (1::nat) \<longrightarrow>
      (\<forall>p. Some p \<in> set (children \<lparr>refCount = 2, children = [Some 1, None]\<rparr>) \<longrightarrow>
           p \<in> dom (nodes heap2) \<and> p \<noteq> 0)"
    by (simp add: heap2_def)
  have rc: "refCount \<lparr>refCount = 2, children = [Some 1, None]\<rparr> \<noteq> 1" by simp
  have ev: "getWritableNode (\<lambda>p vs. (p, vs)) 0 1 heap2 =
     Ok (2, heap2\<lparr>nodes := [0 \<mapsto> \<lparr>refCount = 1, children = [Some 1, None]\<rparr>,
                              1 \<mapsto> \<lparr>refCount = 2, children = [None, None]\<rparr>,
                              2 \<mapsto> \<lparr>refCount = 1, children = [Some 1, None]\<rparr>],
                   nextFree := 3\<rparr>)"
    by (auto simp: getWritableNode_def newSharedTreeNode_def heap2_def fun_upd_def)
  from getWritableNode_cow [OF nd wf kids, of "\<lambda>p vs. (p, vs)", THEN conjunct2, rule_format, OF rc]
  obtain newNode s' where a:
    "getWritableNode (\<lambda>p vs. (p, vs)) 0 1 heap2 = Ok (newNode, s')"
    "newNode \<notin> dom (nodes heap2)"
    "nodes s' 0 = Some \<lparr>refCount = 1, children = [Some 1, None]\<rparr>"
    by auto
  have ndL: "nodes heapL 0 = Some \<lparr>refCount = 2, children = [Some 7, None, Some 8]\<rparr>"
    by (simp add: heapL_def)
  have wfL: "\<forall>a \<in> dom (nodes heapL). a < nextFree heapL"
    by (simp add: heapL_def)
  have kidsL: "0 < (0::nat) \<longrightarrow>
      (\<forall>p. Some p \<in> set (children \<lparr>refCount = 2, children = [Some 7, None, Some 8]\<rparr>) \<longrightarrow>
           p \<in> dom (nodes heapL) \<and> p \<noteq> 0)"
    by simp
  have rcL: "refCount \<lparr>refCount = 2, children = [Some 7, None, Some 8]\<rparr> \<noteq> 1" by simp
  from getWritableNode_cow [OF ndL wfL kidsL, of "\<lambda>p vs. (100 + length vs, vs @ [p])",
      THEN conjunct2, rule_format, OF rcL]
  obtain newL sL where b:
    "getWritableNode (\<lambda>p vs. (100 + length vs, vs @ [p])) 0 0 heapL = Ok (newL, sL)"
    "newL \<notin> dom (nodes heapL)"
    "nodes sL 0 = Some \<lparr>refCount = 1, children = [Some 7, None, Some 8]\<rparr>"
    by auto
  from nd rc ev a ndL getWritableNode_leaves b show ?thesis by blast
qed

section \<open>Local store snapshots\<close>

text \<open>
  A \<^verbatim>\<open>SharedStoreMap\<close> is the map of one stack frame: a reference count and a
  \<^verbatim>\<open>DenseMap\<close> from stack objects to the value set each holds (a \<^verbatim>\<open>LocStore\<close> is
  one pointer to a value set). The map is a list of pairs with distinct keys, in the
  order in which the \<^verbatim>\<open>DenseMap\<close> iterates. A \<^verbatim>\<open>LocalStoreMap\<close> is a snapshot:
  the frame maps of the live calls, the root and height of the heap tree, the flag
  \<^verbatim>\<open>allOthersClobbered\<close> and a reference count. The three reference counts of the
  source are all called \<^verbatim>\<open>refCount\<close>; here those of the two maps are
  \<open>refCountSM\<close> and \<open>refCountLM\<close>.
\<close>

record 'v SharedStoreMap =
  refCountSM :: "32 word"
  store :: "('v \<times> addr) list"

record SharedTreeRoot =
  root :: "addr option"
  height :: nat

record LocalStoreMap =
  frames :: "addr list"
  heap :: SharedTreeRoot
  allOthersClobbered :: bool
  refCountLM :: "32 word"

text \<open>
  The objects of the analysis: the tree nodes and value sets of above, the frame maps and
  the snapshots. A block (\<^verbatim>\<open>ShadowBB\<close>) points to its snapshot.
\<close>

record ('v, 'vs) world = "'vs treeHeap" +
  frameMaps :: "addr \<rightharpoonup> 'v SharedStoreMap"
  localMaps :: "addr \<rightharpoonup> LocalStoreMap"

record ShadowBB =
  localStore :: addr

text \<open>A loop over a list whose body may stop the program.\<close>

primrec forEach :: "('a \<Rightarrow> 's \<Rightarrow> 's outcome) \<Rightarrow> 'a list \<Rightarrow> 's \<Rightarrow> 's outcome" where
  "forEach f [] s = Ok s"
| "forEach f (x # xs) s =
     (case f x s of
        Ok s' \<Rightarrow> forEach f xs s'
      | AssertFail \<Rightarrow> AssertFail
      | Crash \<Rightarrow> Crash)"

text \<open>
  \<^verbatim>\<open>SharedTreeNode::dropReference(height)\<close>: the count is decremented; at zero the
  children are dropped (value sets through their virtual \<^verbatim>\<open>dropReference\<close>, here
  \<open>vsDrop\<close>; nodes one level down) and the node is deleted.
\<close>

primrec dropReferenceNode ::
  "(addr \<Rightarrow> 'vs \<Rightarrow> 'vs) \<Rightarrow> nat \<Rightarrow> addr \<Rightarrow> ('vs, 'm) treeHeap_scheme \<Rightarrow>
   ('vs, 'm) treeHeap_scheme outcome"
where
  "dropReferenceNode vsDrop 0 = (\<lambda>this s.
     (case nodes s this of
        None \<Rightarrow> Crash
      | Some n \<Rightarrow>
          let s1 = s\<lparr>nodes := (nodes s)(this \<mapsto> n\<lparr>refCount := refCount n - 1\<rparr>)\<rparr> in
          if refCount n - 1 \<noteq> 0 then Ok s1
          else
            (case forEach (\<lambda>c s'. case c of
                                     None \<Rightarrow> Ok s'
                                   | Some p \<Rightarrow> Ok (s'\<lparr>valsets := vsDrop p (valsets s')\<rparr>))
                    (children n) s1 of
               Ok s2 \<Rightarrow> Ok (s2\<lparr>nodes := (nodes s2)(this := None)\<rparr>)
             | AssertFail \<Rightarrow> AssertFail
             | Crash \<Rightarrow> Crash)))"
| "dropReferenceNode vsDrop (Suc h) = (\<lambda>this s.
     (case nodes s this of
        None \<Rightarrow> Crash
      | Some n \<Rightarrow>
          let s1 = s\<lparr>nodes := (nodes s)(this \<mapsto> n\<lparr>refCount := refCount n - 1\<rparr>)\<rparr> in
          if refCount n - 1 \<noteq> 0 then Ok s1
          else
            (case forEach (\<lambda>c s'. case c of
                                     None \<Rightarrow> Ok s'
                                   | Some p \<Rightarrow> dropReferenceNode vsDrop h p s')
                    (children n) s1 of
               Ok s2 \<Rightarrow> Ok (s2\<lparr>nodes := (nodes s2)(this := None)\<rparr>)
             | AssertFail \<Rightarrow> AssertFail
             | Crash \<Rightarrow> Crash)))"

text \<open>\<^verbatim>\<open>SharedTreeRoot::clear\<close>.\<close>

definition clearRoot ::
  "(addr \<Rightarrow> 'vs \<Rightarrow> 'vs) \<Rightarrow> SharedTreeRoot \<Rightarrow> ('v, 'vs) world \<Rightarrow>
   (SharedTreeRoot \<times> ('v, 'vs) world) outcome"
where
  "clearRoot vsDrop r w =
     (if height r = 0 then Ok (r, w)
      else
        (case root r of
           None \<Rightarrow> Crash
         | Some p \<Rightarrow>
             (case dropReferenceNode vsDrop (height r - 1) p w of
                Ok w' \<Rightarrow> Ok (\<lparr>root = None, height = 0\<rparr>, w')
              | AssertFail \<Rightarrow> AssertFail
              | Crash \<Rightarrow> Crash)))"

text \<open>
  \<^verbatim>\<open>SharedStoreMap::clear\<close>, \<^verbatim>\<open>dropReference\<close> and \<^verbatim>\<open>getEmptyMap\<close>, and
  \<^verbatim>\<open>new SharedStoreMap()\<close> (count 1, no entries).
\<close>

definition clearSM ::
  "(addr \<Rightarrow> 'vs \<Rightarrow> 'vs) \<Rightarrow> addr \<Rightarrow> ('v, 'vs) world \<Rightarrow> ('v, 'vs) world outcome"
where
  "clearSM vsDrop this w =
     (case frameMaps w this of
        None \<Rightarrow> Crash
      | Some m \<Rightarrow>
          if \<not> refCountSM m \<le> 1 then AssertFail
          else Ok (w\<lparr>valsets := fold (\<lambda>(k, p) vs. vsDrop p vs) (store m) (valsets w),
                     frameMaps := (frameMaps w)(this \<mapsto> m\<lparr>store := []\<rparr>)\<rparr>))"

definition dropReferenceSM ::
  "(addr \<Rightarrow> 'vs \<Rightarrow> 'vs) \<Rightarrow> addr \<Rightarrow> ('v, 'vs) world \<Rightarrow> ('v, 'vs) world outcome"
where
  "dropReferenceSM vsDrop this w =
     (case frameMaps w this of
        None \<Rightarrow> Crash
      | Some m \<Rightarrow>
          let w1 = w\<lparr>frameMaps := (frameMaps w)(this \<mapsto> m\<lparr>refCountSM := refCountSM m - 1\<rparr>)\<rparr> in
          if refCountSM m - 1 \<noteq> 0 then Ok w1
          else
            (case clearSM vsDrop this w1 of
               Ok w2 \<Rightarrow> Ok (w2\<lparr>frameMaps := (frameMaps w2)(this := None)\<rparr>)
             | AssertFail \<Rightarrow> AssertFail
             | Crash \<Rightarrow> Crash))"

definition newSharedStoreMap :: "('v, 'vs) world \<Rightarrow> addr \<times> ('v, 'vs) world" where
  "newSharedStoreMap w =
     (nextFree w,
      w\<lparr>frameMaps := (frameMaps w)(nextFree w \<mapsto> \<lparr>refCountSM = 1, store = []\<rparr>),
        nextFree := Suc (nextFree w)\<rparr>)"

definition getEmptyMapSM ::
  "(addr \<Rightarrow> 'vs \<Rightarrow> 'vs) \<Rightarrow> addr \<Rightarrow> ('v, 'vs) world \<Rightarrow> (addr \<times> ('v, 'vs) world) outcome"
where
  "getEmptyMapSM vsDrop this w =
     (case frameMaps w this of
        None \<Rightarrow> Crash
      | Some m \<Rightarrow>
          if store m = [] then Ok (this, w)
          else if refCountSM m = 1 then
            (case clearSM vsDrop this w of
               Ok w' \<Rightarrow> Ok (this, w')
             | AssertFail \<Rightarrow> AssertFail
             | Crash \<Rightarrow> Crash)
          else
            (case dropReferenceSM vsDrop this w of
               Ok w' \<Rightarrow> Ok (newSharedStoreMap w')
             | AssertFail \<Rightarrow> AssertFail
             | Crash \<Rightarrow> Crash))"

text \<open>
  \<^verbatim>\<open>LocalStoreMap::empty\<close>: false at once when the heap has a height, and at the
  first frame that has an entry.
\<close>

primrec framesEmpty :: "(addr \<rightharpoonup> 'v SharedStoreMap) \<Rightarrow> addr list \<Rightarrow> bool outcome" where
  "framesEmpty fm [] = Ok True"
| "framesEmpty fm (f # fs) =
     (case fm f of
        None \<Rightarrow> Crash
      | Some m \<Rightarrow> if store m \<noteq> [] then Ok False else framesEmpty fm fs)"

definition emptyLM :: "('v, 'vs) world \<Rightarrow> LocalStoreMap \<Rightarrow> bool outcome" where
  "emptyLM w m = (if height (heap m) \<noteq> 0 then Ok False else framesEmpty (frameMaps w) (frames m))"

text \<open>
  \<^verbatim>\<open>LocalStoreMap::clear\<close>: the heap is cleared, then each frame pointer is replaced
  by what \<^verbatim>\<open>getEmptyMap\<close> returns for it.
\<close>

primrec emptyFrames ::
  "(addr \<Rightarrow> 'vs \<Rightarrow> 'vs) \<Rightarrow> addr list \<Rightarrow> ('v, 'vs) world \<Rightarrow> (addr list \<times> ('v, 'vs) world) outcome"
where
  "emptyFrames vsDrop [] w = Ok ([], w)"
| "emptyFrames vsDrop (f # fs) w =
     (case getEmptyMapSM vsDrop f w of
        AssertFail \<Rightarrow> AssertFail
      | Crash \<Rightarrow> Crash
      | Ok (f', w1) \<Rightarrow>
          (case emptyFrames vsDrop fs w1 of
             AssertFail \<Rightarrow> AssertFail
           | Crash \<Rightarrow> Crash
           | Ok (fs', w2) \<Rightarrow> Ok (f' # fs', w2)))"

definition clearLM ::
  "(addr \<Rightarrow> 'vs \<Rightarrow> 'vs) \<Rightarrow> addr \<Rightarrow> ('v, 'vs) world \<Rightarrow> ('v, 'vs) world outcome"
where
  "clearLM vsDrop this w =
     (case localMaps w this of
        None \<Rightarrow> Crash
      | Some m \<Rightarrow>
          (case clearRoot vsDrop (heap m) w of
             AssertFail \<Rightarrow> AssertFail
           | Crash \<Rightarrow> Crash
           | Ok (r', w1) \<Rightarrow>
               (case emptyFrames vsDrop (frames m) w1 of
                  AssertFail \<Rightarrow> AssertFail
                | Crash \<Rightarrow> Crash
                | Ok (fs', w2) \<Rightarrow>
                    Ok (w2\<lparr>localMaps := (localMaps w2)(this \<mapsto> m\<lparr>heap := r', frames := fs'\<rparr>)\<rparr>))))"

text \<open>
  \<^verbatim>\<open>LocalStoreMap::getEmptyMap\<close>. A \<^verbatim>\<open>new LocalStoreMap(n)\<close> has count 1, an
  empty heap and \<open>n\<close> frame slots, which \<^verbatim>\<open>createEmptyFrames\<close> fills with new frame
  maps; its flag is taken to start false (the callers here set it right after).
\<close>

primrec createEmptyFrames :: "nat \<Rightarrow> ('v, 'vs) world \<Rightarrow> addr list \<times> ('v, 'vs) world" where
  "createEmptyFrames 0 w = ([], w)"
| "createEmptyFrames (Suc k) w =
     (case newSharedStoreMap w of
        (f, w1) \<Rightarrow> (case createEmptyFrames k w1 of (fs, w2) \<Rightarrow> (f # fs, w2)))"

definition getEmptyMapLM ::
  "(addr \<Rightarrow> 'vs \<Rightarrow> 'vs) \<Rightarrow> addr \<Rightarrow> ('v, 'vs) world \<Rightarrow> (addr \<times> ('v, 'vs) world) outcome"
where
  "getEmptyMapLM vsDrop this w =
     (case localMaps w this of
        None \<Rightarrow> Crash
      | Some m \<Rightarrow>
          (case emptyLM w m of
             AssertFail \<Rightarrow> AssertFail
           | Crash \<Rightarrow> Crash
           | Ok e \<Rightarrow>
               if e then Ok (this, w)
               else if refCountLM m = 1 then
                 (case clearLM vsDrop this w of
                    Ok w' \<Rightarrow> Ok (this, w')
                  | AssertFail \<Rightarrow> AssertFail
                  | Crash \<Rightarrow> Crash)
               else
                 let w1 = w\<lparr>localMaps := (localMaps w)(this \<mapsto> m\<lparr>refCountLM := refCountLM m - 1\<rparr>)\<rparr>;
                     newMap = nextFree w1;
                     w2 = w1\<lparr>nextFree := Suc newMap\<rparr>
                 in (case createEmptyFrames (length (frames m)) w2 of
                       (fs, w3) \<Rightarrow>
                         Ok (newMap,
                             w3\<lparr>localMaps := (localMaps w3)(newMap \<mapsto>
                                   \<lparr>frames = fs, heap = \<lparr>root = None, height = 0\<rparr>,
                                    allOthersClobbered = False, refCountLM = 1\<rparr>)\<rparr>))))"


text \<open>
  What the functions below use and \<^verbatim>\<open>LoadForward.cpp\<close> does not define, or defines
  on paths that the properties proved here do not reach:
  \<^item> of the header: \<^verbatim>\<open>isInitialised\<close>, \<^verbatim>\<open>setOverdef\<close> and \<^verbatim>\<open>getOverdef\<close> of a
    value set, \<^verbatim>\<open>val_is<ConstantPointerNull>\<close> (\<open>isNullPointer\<close>), the virtual
    \<^verbatim>\<open>dropReference\<close> and \<^verbatim>\<open>getReadableCopy\<close> of the value-set objects,
    \<^verbatim>\<open>HEAPTREEORDERLOG2\<close> (the fan-out is 2 to that power), and the base store of a
    value;
  \<^item> \<^verbatim>\<open>getFrameNo\<close> and \<^verbatim>\<open>getHeapKey\<close> of a value, which read the driver's
    instruction data;
  \<^item> \<open>writeCertain\<close>: \<^verbatim>\<open>getWritableStoreFor\<close> followed by
    \<^verbatim>\<open>replaceRangeWithPB\<close> for a single certain non-null pointer; \<open>clobberVague\<close>
    and \<open>writeMaybe\<close>: the two branches of the loop of \<^verbatim>\<open>executeWriteInst\<close> for a
    non-null candidate (the second may coerce \<^verbatim>\<open>ValPB\<close>, which it returns);
  \<^item> \<open>readFrom\<close>: \<^verbatim>\<open>readValRangeFrom\<close> from a located store, with the conversion
    of a partial value that follows it in \<^verbatim>\<open>readValRange\<close>;
  \<^item> \<open>copyRange\<close>: the tail of \<^verbatim>\<open>executeCopyInst\<close> for two non-null pointers.
\<close>

record ('v, 'vs) externals =
  isInitialised :: "'v ImprovedValSetSingle \<Rightarrow> bool"
  setOverdef :: "'v ImprovedValSetSingle \<Rightarrow> 'v ImprovedValSetSingle"
  getOverdef :: "'v ImprovedValSetSingle"
  isNullPointer :: "'v \<Rightarrow> bool"
  vsDropReference :: "addr \<Rightarrow> 'vs \<Rightarrow> 'vs"
  vsGetReadableCopy :: "addr \<Rightarrow> 'vs \<Rightarrow> addr \<times> 'vs"
  getFrameNo :: "'v \<Rightarrow> int"
  getHeapKey :: "'v \<Rightarrow> int"
  HEAPTREEORDERLOG2 :: nat
  getBaseStore :: "'v \<Rightarrow> addr"
  writeCertain ::
    "'v ImprovedVal \<Rightarrow> 'v ImprovedValSetSingle \<Rightarrow> 64 word \<Rightarrow> ShadowBB \<times> ('v, 'vs) world \<Rightarrow>
     (ShadowBB \<times> ('v, 'vs) world) outcome"
  clobberVague ::
    "'v ImprovedVal \<Rightarrow> ShadowBB \<times> ('v, 'vs) world \<Rightarrow> (ShadowBB \<times> ('v, 'vs) world) outcome"
  writeMaybe ::
    "'v ImprovedVal \<Rightarrow> 'v ImprovedValSetSingle \<Rightarrow> 64 word \<Rightarrow> ShadowBB \<times> ('v, 'vs) world \<Rightarrow>
     ('v ImprovedValSetSingle \<times> ShadowBB \<times> ('v, 'vs) world) outcome"
  readFrom ::
    "'v \<Rightarrow> 64 word \<Rightarrow> 64 word \<Rightarrow> addr \<Rightarrow> 'v ImprovedValSetSingle \<Rightarrow> ShadowBB \<times> ('v, 'vs) world \<Rightarrow>
     'v ImprovedValSetSingle outcome"
  copyRange ::
    "'v ImprovedVal \<Rightarrow> 'v ImprovedVal \<Rightarrow> 64 word \<Rightarrow> ShadowBB \<times> ('v, 'vs) world \<Rightarrow>
     (ShadowBB \<times> ('v, 'vs) world) outcome"

text \<open>
  \<^verbatim>\<open>executeWriteInst\<close>. It returns \<^verbatim>\<open>ValPB\<close>, which it may have set overdefined,
  and the block with the objects. The loop over several candidates passes over the null
  pointers.
\<close>

primrec writeLoop ::
  "('v, 'vs) externals \<Rightarrow> 64 word \<Rightarrow> 'v ImprovedVal list \<Rightarrow> 'v ImprovedValSetSingle \<Rightarrow>
   ShadowBB \<times> ('v, 'vs) world \<Rightarrow> ('v ImprovedValSetSingle \<times> ShadowBB \<times> ('v, 'vs) world) outcome"
where
  "writeLoop ext PtrSize [] ValPB st = Ok (ValPB, st)"
| "writeLoop ext PtrSize (it # rest) ValPB st =
     (if isNullPointer ext (V it) then writeLoop ext PtrSize rest ValPB st
      else if Offset it = LLONG_MAX then
        (case clobberVague ext it st of
           Ok st' \<Rightarrow> writeLoop ext PtrSize rest ValPB st'
         | AssertFail \<Rightarrow> AssertFail
         | Crash \<Rightarrow> Crash)
      else
        (case writeMaybe ext it ValPB PtrSize st of
           Ok (ValPB', st') \<Rightarrow> writeLoop ext PtrSize rest ValPB' st'
         | AssertFail \<Rightarrow> AssertFail
         | Crash \<Rightarrow> Crash))"

definition executeWriteInst ::
  "('v, 'vs) externals \<Rightarrow> 'v ImprovedValSetSingle \<Rightarrow> 'v ImprovedValSetSingle \<Rightarrow> 64 word \<Rightarrow>
   ShadowBB \<times> ('v, 'vs) world \<Rightarrow> ('v ImprovedValSetSingle \<times> ShadowBB \<times> ('v, 'vs) world) outcome"
where
  "executeWriteInst ext PtrSet ValPB0 PtrSize st =
     (let ValPB = (if \<not> isInitialised ext ValPB0 then setOverdef ext ValPB0 else ValPB0);
          StoreBB = fst st; w = snd st
      in
      if Overdef PtrSet then
        (case getEmptyMapLM (vsDropReference ext) (localStore StoreBB) w of
           AssertFail \<Rightarrow> AssertFail
         | Crash \<Rightarrow> Crash
         | Ok (m, w1) \<Rightarrow>
             (case localMaps w1 m of
                None \<Rightarrow> Crash
              | Some lm \<Rightarrow>
                  Ok (ValPB, StoreBB\<lparr>localStore := m\<rparr>,
                      w1\<lparr>localMaps := (localMaps w1)(m \<mapsto> lm\<lparr>allOthersClobbered := True\<rparr>)\<rparr>)))
      else if length (Values PtrSet) = 1 \<and> Offset (hd (Values PtrSet)) \<noteq> LLONG_MAX then
        (if isNullPointer ext (V (hd (Values PtrSet))) then Ok (ValPB, st)
         else
           (case writeCertain ext (hd (Values PtrSet)) ValPB PtrSize st of
              Ok st' \<Rightarrow> Ok (ValPB, st')
            | AssertFail \<Rightarrow> AssertFail
            | Crash \<Rightarrow> Crash))
      else writeLoop ext PtrSize (Values PtrSet) ValPB st)"

text \<open>
  \<^verbatim>\<open>getReadableStoreFor\<close> of a node, of the root and of a block. The result is the
  value-set pointer of the store found, or null. The child index
  \<^verbatim>\<open>(idx >> (height * HEAPTREEORDERLOG2)) & (HEAPTREEORDER - 1)\<close> is written with
  \<open>div\<close> and \<open>mod\<close>. Indexing \<^verbatim>\<open>frames\<close> outside the vector is undefined.
\<close>

primrec getReadableStoreForNode ::
  "nat \<Rightarrow> (addr \<rightharpoonup> SharedTreeNode) \<Rightarrow> nat \<Rightarrow> nat \<Rightarrow> addr \<Rightarrow> addr option outcome"
where
  "getReadableStoreForNode log2 ns idx 0 = (\<lambda>this.
     (case ns this of
        None \<Rightarrow> Crash
      | Some n \<Rightarrow>
          let nextChild = idx mod 2 ^ log2 in
          if length (children n) \<le> nextChild then Crash
          else Ok (children n ! nextChild)))"
| "getReadableStoreForNode log2 ns idx (Suc h) = (\<lambda>this.
     (case ns this of
        None \<Rightarrow> Crash
      | Some n \<Rightarrow>
          let nextChild = (idx div 2 ^ (Suc h * log2)) mod 2 ^ log2 in
          if length (children n) \<le> nextChild then Crash
          else
            (case children n ! nextChild of
               None \<Rightarrow> Ok None
             | Some c \<Rightarrow> getReadableStoreForNode log2 ns idx h c)))"

definition getReadableStoreForRoot ::
  "('v, 'vs) externals \<Rightarrow> (addr \<rightharpoonup> SharedTreeNode) \<Rightarrow> SharedTreeRoot \<Rightarrow> 'v \<Rightarrow> addr option outcome"
where
  "getReadableStoreForRoot ext ns r v =
     (if height r = 0 then Ok None
      else if getHeapKey ext v < 0 then Ok None
      else
        (case root r of
           None \<Rightarrow> Crash
         | Some p \<Rightarrow>
             getReadableStoreForNode (HEAPTREEORDERLOG2 ext) ns (nat (getHeapKey ext v))
               (height r - 1) p))"

definition getReadableStoreFor ::
  "('v, 'vs) externals \<Rightarrow> ShadowBB \<times> ('v, 'vs) world \<Rightarrow> 'v \<Rightarrow> addr option outcome"
where
  "getReadableStoreFor ext st v =
     (case localMaps (snd st) (localStore (fst st)) of
        None \<Rightarrow> Crash
      | Some lm \<Rightarrow>
          if getFrameNo ext v = - 1 then getReadableStoreForRoot ext (nodes (snd st)) (heap lm) v
          else if getFrameNo ext v < 0 \<or> length (frames lm) \<le> nat (getFrameNo ext v) then Crash
          else
            (case frameMaps (snd st) (frames lm ! nat (getFrameNo ext v)) of
               None \<Rightarrow> Crash
             | Some fm \<Rightarrow> Ok (map_of (store fm) v)))"

text \<open>
  \<^verbatim>\<open>readValRange\<close>: \<open>Result\<close> is the caller's object that the function fills.
\<close>

definition readValRange ::
  "('v, 'vs) externals \<Rightarrow> 'v \<Rightarrow> 64 word \<Rightarrow> 64 word \<Rightarrow> ShadowBB \<times> ('v, 'vs) world \<Rightarrow>
   'v ImprovedValSetSingle \<Rightarrow> 'v ImprovedValSetSingle outcome"
where
  "readValRange ext v Off Size st Result =
     (case getReadableStoreFor ext st v of
        AssertFail \<Rightarrow> AssertFail
      | Crash \<Rightarrow> Crash
      | Ok None \<Rightarrow>
          (case localMaps (snd st) (localStore (fst st)) of
             None \<Rightarrow> Crash
           | Some lm \<Rightarrow>
               if allOthersClobbered lm then Ok (setOverdef ext Result)
               else readFrom ext v Off Size (getBaseStore ext v) Result st)
      | Ok (Some firstStore) \<Rightarrow> readFrom ext v Off Size firstStore Result st)"

text \<open>\<^verbatim>\<open>executeCopyInst\<close>.\<close>

definition executeCopyInst ::
  "('v, 'vs) externals \<Rightarrow> 'v ImprovedValSetSingle \<Rightarrow> 'v ImprovedValSetSingle \<Rightarrow> 64 word \<Rightarrow>
   ShadowBB \<times> ('v, 'vs) world \<Rightarrow> (ShadowBB \<times> ('v, 'vs) world) outcome"
where
  "executeCopyInst ext PtrSet SrcPtrSet Size st =
     (if Size = ULONG_MAX \<or> Overdef PtrSet \<or> length (Values PtrSet) \<noteq> 1 \<or>
         Overdef SrcPtrSet \<or> length (Values SrcPtrSet) \<noteq> 1
      then
        (case executeWriteInst ext PtrSet (getOverdef ext) Size st of
           Ok (OD, st') \<Rightarrow> Ok st'
         | AssertFail \<Rightarrow> AssertFail
         | Crash \<Rightarrow> Crash)
      else if isNullPointer ext (V (hd (Values SrcPtrSet))) then Ok st
      else if isNullPointer ext (V (hd (Values PtrSet))) then Ok st
      else copyRange ext (hd (Values PtrSet)) (hd (Values SrcPtrSet)) Size st)"

text \<open>
  An instance for the examples: values below 10 are stack objects of frame 0, the
  others heap objects; value 0 is the null pointer. The snapshot at address 10 holds
  stack object 5 in its frame and a heap tree of height 1.
\<close>

definition extX :: "(nat, unit) externals" where
  "extX = \<lparr>isInitialised = (\<lambda>s. True),
           setOverdef = (\<lambda>s. s\<lparr>Values := [], Overdef := True\<rparr>),
           getOverdef = \<lparr>SetType = ValSetTypeUnknown, Values = [], Overdef = True\<rparr>,
           isNullPointer = (\<lambda>v. v = 0),
           vsDropReference = (\<lambda>p vs. vs),
           vsGetReadableCopy = (\<lambda>p vs. (p, vs)),
           getFrameNo = (\<lambda>v. if v < 10 then 0 else - 1),
           getHeapKey = (\<lambda>v. int v - 10),
           HEAPTREEORDERLOG2 = 1,
           getBaseStore = (\<lambda>v. 1000 + v),
           writeCertain = (\<lambda>iv val sz st. Ok st),
           clobberVague = (\<lambda>iv st. Ok st),
           writeMaybe = (\<lambda>iv val sz st. Ok (val, st)),
           readFrom = (\<lambda>v off sz p res st. Ok res),
           copyRange = (\<lambda>d s sz st. Ok st)\<rparr>"

definition worldX :: "(nat, unit) world" where
  "worldX = \<lparr>nodes = [30 \<mapsto> \<lparr>refCount = 1, children = [Some 200, None]\<rparr>],
             valsets = (), nextFree = 40,
             frameMaps = [20 \<mapsto> \<lparr>refCountSM = 1, store = [(5, 100)]\<rparr>],
             localMaps = [10 \<mapsto> \<lparr>frames = [20], heap = \<lparr>root = Some 30, height = 1\<rparr>,
                                  allOthersClobbered = False, refCountLM = 1\<rparr>]\<rparr>"

text \<open>The same snapshot, shared by two blocks.\<close>

definition worldS :: "(nat, unit) world" where
  "worldS = \<lparr>nodes = [30 \<mapsto> \<lparr>refCount = 1, children = [Some 200, None]\<rparr>],
             valsets = (), nextFree = 40,
             frameMaps = [20 \<mapsto> \<lparr>refCountSM = 1, store = [(5, 100)]\<rparr>],
             localMaps = [10 \<mapsto> \<lparr>frames = [20], heap = \<lparr>root = Some 30, height = 1\<rparr>,
                                  allOthersClobbered = False, refCountLM = 2\<rparr>]\<rparr>"

definition overdefSet :: "nat ImprovedValSetSingle" where
  "overdefSet = \<lparr>SetType = ValSetTypeUnknown, Values = [], Overdef = True\<rparr>"


definition nullSet :: "nat ImprovedValSetSingle" where
  "nullSet = \<lparr>SetType = ValSetTypePB, Values = [\<lparr>V = 0, Offset = 0\<rparr>], Overdef = False\<rparr>"


subsection \<open>A write through an overdefined pointer\<close>

text \<open>A frame map without entries; a snapshot without heap and with such frames only.\<close>

definition frameEmptyIn :: "('v, 'vs) world \<Rightarrow> addr \<Rightarrow> bool" where
  "frameEmptyIn w f = (case frameMaps w f of None \<Rightarrow> False | Some fm \<Rightarrow> store fm = [])"

lemma forEach_keeps:
  assumes "forEach f xs s = Ok s'"
    and "\<And>x a b. f x a = Ok b \<Longrightarrow> P a \<Longrightarrow> P b"
    and "P s"
  shows "P s'"
  using assms(1,3)
proof (induction xs arbitrary: s)
  case Nil
  then show ?case by simp
next
  case (Cons x xs)
  from Cons.prems(1) obtain s1 where a: "f x s = Ok s1" and b: "forEach f xs s1 = Ok s'"
    by (auto split: outcome.splits)
  from assms(2) [OF a Cons.prems(2)] have "P s1" .
  from Cons.IH [OF b this] show ?case .
qed

lemma dropReferenceNode_maps:
  fixes s :: "('v, 'vs) world"
  assumes "dropReferenceNode vsDrop h this s = Ok s'"
  shows "frameMaps s' = frameMaps s \<and> localMaps s' = localMaps s \<and> nextFree s' = nextFree s"
  using assms
proof (induction h arbitrary: this s s')
  case 0
  let ?P = "\<lambda>t :: ('v, 'vs) world. frameMaps t = frameMaps s \<and> localMaps t = localMaps s \<and> nextFree t = nextFree s"
  from "0.prems" obtain n where n: "nodes s this = Some n" by (auto split: option.splits)
  let ?s1 = "s\<lparr>nodes := (nodes s)(this \<mapsto> n\<lparr>refCount := refCount n - 1\<rparr>)\<rparr>"
  show ?case
  proof (cases "refCount n - 1 \<noteq> 0")
    case True
    with "0.prems" n show ?thesis by (auto simp: Let_def)
  next
    case False
    with "0.prems" n obtain s2 where
      fe: "forEach (\<lambda>c s'. case c of None \<Rightarrow> Ok s' | Some p \<Rightarrow> Ok (s'\<lparr>valsets := vsDrop p (valsets s')\<rparr>))
             (children n) ?s1 = Ok s2"
      and r: "s' = s2\<lparr>nodes := (nodes s2)(this := None)\<rparr>"
      by (auto simp: Let_def split: outcome.splits)
    have "?P s2"
      by (rule forEach_keeps [OF fe]) (auto split: option.splits)
    with r show ?thesis by simp
  qed
next
  case (Suc h)
  let ?P = "\<lambda>t :: ('v, 'vs) world. frameMaps t = frameMaps s \<and> localMaps t = localMaps s \<and> nextFree t = nextFree s"
  from Suc.prems obtain n where n: "nodes s this = Some n" by (auto split: option.splits)
  let ?s1 = "s\<lparr>nodes := (nodes s)(this \<mapsto> n\<lparr>refCount := refCount n - 1\<rparr>)\<rparr>"
  show ?case
  proof (cases "refCount n - 1 \<noteq> 0")
    case True
    with Suc.prems n show ?thesis by (auto simp: Let_def)
  next
    case False
    with Suc.prems n obtain s2 where
      fe: "forEach (\<lambda>c s'. case c of None \<Rightarrow> Ok s' | Some p \<Rightarrow> dropReferenceNode vsDrop h p s')
             (children n) ?s1 = Ok s2"
      and r: "s' = s2\<lparr>nodes := (nodes s2)(this := None)\<rparr>"
      by (auto simp: Let_def split: outcome.splits)
    have "?P s2"
    proof (rule forEach_keeps [OF fe])
      show "?P ?s1" by simp
      fix x and a b :: "('v, 'vs) world"
      assume st: "(case x of None \<Rightarrow> Ok a | Some p \<Rightarrow> dropReferenceNode vsDrop h p a) = Ok b" and pa: "?P a"
      show "?P b"
      proof (cases x)
        case None
        with st pa show ?thesis by simp
      next
        case (Some p)
        with st have "dropReferenceNode vsDrop h p a = Ok b" by simp
        from Suc.IH [OF this] pa show ?thesis by simp
      qed
    qed
    with r show ?thesis by simp
  qed
qed

lemma clearRoot_result:
  assumes "clearRoot vsDrop r w = Ok (r', w')"
  shows "height r' = 0 \<and> frameMaps w' = frameMaps w \<and> localMaps w' = localMaps w \<and> nextFree w' = nextFree w"
proof (cases "height r = 0")
  case True
  with assms show ?thesis by (simp add: clearRoot_def)
next
  case False
  with assms obtain p where "dropReferenceNode vsDrop (height r - 1) p w = Ok w'" and "height r' = 0"
    by (auto simp: clearRoot_def split: option.splits outcome.splits)
  with dropReferenceNode_maps [of vsDrop "height r - 1" p w w'] show ?thesis by simp
qed

lemma getEmptyMapSM_result:
  assumes "getEmptyMapSM vsDrop f w = Ok (f', w')"
  shows "frameEmptyIn w' f' \<and> localMaps w' = localMaps w \<and>
         (\<forall>g. frameEmptyIn w g \<longrightarrow> frameEmptyIn w' g)"
proof -
  from assms obtain m where m: "frameMaps w f = Some m"
    by (auto simp: getEmptyMapSM_def split: option.splits)
  show ?thesis
  proof (cases "store m = []")
    case True
    with assms m show ?thesis by (auto simp: getEmptyMapSM_def frameEmptyIn_def)
  next
    case ne: False
    show ?thesis
    proof (cases "refCountSM m = 1")
      case True
      with assms m ne show ?thesis
        by (auto simp: getEmptyMapSM_def clearSM_def frameEmptyIn_def split: outcome.splits if_splits)
    next
      case False
      with assms m ne show ?thesis
        by (auto simp: getEmptyMapSM_def dropReferenceSM_def clearSM_def newSharedStoreMap_def
            frameEmptyIn_def Let_def split: outcome.splits if_splits option.splits)
    qed
  qed
qed

lemma emptyFrames_result:
  assumes "emptyFrames vsDrop fs w = Ok (fs', w')"
  shows "(\<forall>f \<in> set fs'. frameEmptyIn w' f) \<and> localMaps w' = localMaps w \<and>
         (\<forall>g. frameEmptyIn w g \<longrightarrow> frameEmptyIn w' g)"
  using assms
proof (induction fs arbitrary: w fs')
  case Nil
  then show ?case by simp
next
  case (Cons f fs)
  from Cons.prems obtain f1 w1 fs1 where
    a: "getEmptyMapSM vsDrop f w = Ok (f1, w1)"
    and b: "emptyFrames vsDrop fs w1 = Ok (fs1, w')"
    and c: "fs' = f1 # fs1"
    by (auto split: outcome.splits)
  from getEmptyMapSM_result [OF a] Cons.IH [OF b] c show ?case by simp
qed

lemma createEmptyFrames_result:
  assumes "createEmptyFrames k w = (fs, w')"
  shows "length fs = k \<and> (\<forall>f \<in> set fs. frameEmptyIn w' f) \<and> localMaps w' = localMaps w \<and>
         (\<forall>g. frameEmptyIn w g \<longrightarrow> frameEmptyIn w' g)"
  using assms
proof (induction k arbitrary: w fs w')
  case 0
  then show ?case by auto
next
  case (Suc k)
  obtain f w1 where a: "newSharedStoreMap w = (f, w1)" by (cases "newSharedStoreMap w")
  obtain fs1 w2 where b: "createEmptyFrames k w1 = (fs1, w2)" by (cases "createEmptyFrames k w1")
  from Suc.prems a b have c: "fs = f # fs1" "w' = w2" by simp_all
  from a have f1: "frameEmptyIn w1 f" "localMaps w1 = localMaps w"
    "\<forall>g. frameEmptyIn w g \<longrightarrow> frameEmptyIn w1 g"
    by (auto simp: newSharedStoreMap_def frameEmptyIn_def)
  from Suc.IH [OF b] f1 c show ?case by simp
qed

lemma framesEmpty_True:
  assumes "framesEmpty fm fs = Ok True"
  shows "\<forall>f \<in> set fs. \<exists>m. fm f = Some m \<and> store m = []"
  using assms by (induction fs) (auto split: option.splits if_splits)

definition mapEmptyIn :: "('v, 'vs) world \<Rightarrow> addr \<Rightarrow> bool" where
  "mapEmptyIn w a =
     (case localMaps w a of
        None \<Rightarrow> False
      | Some lm \<Rightarrow> height (heap lm) = 0 \<and> list_all (frameEmptyIn w) (frames lm))"

lemma getEmptyMapLM_result:
  assumes "getEmptyMapLM vsDrop this w = Ok (m, w')"
  shows "mapEmptyIn w' m"
proof -
  from assms obtain lm where lm: "localMaps w this = Some lm"
    by (auto simp: getEmptyMapLM_def split: option.splits)
  from assms lm obtain e where e: "emptyLM w lm = Ok e"
    by (auto simp: getEmptyMapLM_def split: outcome.splits)
  show ?thesis
  proof (cases e)
    case True
    with assms lm e have eq: "m = this" "w' = w" by (auto simp: getEmptyMapLM_def)
    from True e have h0: "height (heap lm) = 0" and fe: "framesEmpty (frameMaps w) (frames lm) = Ok True"
      by (auto simp: emptyLM_def split: if_splits)
    from framesEmpty_True [OF fe] have "list_all (frameEmptyIn w) (frames lm)"
      by (auto simp: list_all_iff frameEmptyIn_def)
    with h0 lm eq show ?thesis by (simp add: mapEmptyIn_def)
  next
    case ne: False
    show ?thesis
    proof (cases "refCountLM lm = 1")
      case True
      with assms lm e ne have cl: "clearLM vsDrop this w = Ok w'" and eq: "m = this"
        by (auto simp: getEmptyMapLM_def split: outcome.splits)
      from cl lm obtain r' w1 fs' w2 where
        a: "clearRoot vsDrop (heap lm) w = Ok (r', w1)"
        and b: "emptyFrames vsDrop (frames lm) w1 = Ok (fs', w2)"
        and c: "w' = w2\<lparr>localMaps := (localMaps w2)(this \<mapsto> lm\<lparr>heap := r', frames := fs'\<rparr>)\<rparr>"
        by (auto simp: clearLM_def split: outcome.splits)
      from clearRoot_result [OF a] have h0: "height r' = 0" by simp
      from emptyFrames_result [OF b] have "\<forall>f \<in> set fs'. frameEmptyIn w2 f" by simp
      then have "\<forall>f \<in> set fs'. frameEmptyIn w' f" using c by (simp add: frameEmptyIn_def)
      with h0 c eq show ?thesis by (simp add: mapEmptyIn_def list_all_iff)
    next
      case False
      let ?w1 = "w\<lparr>localMaps := (localMaps w)(this \<mapsto> lm\<lparr>refCountLM := refCountLM lm - 1\<rparr>)\<rparr>"
      let ?w2 = "?w1\<lparr>nextFree := Suc (nextFree ?w1)\<rparr>"
      obtain fs w3 where cf: "createEmptyFrames (length (frames lm)) ?w2 = (fs, w3)"
        by (cases "createEmptyFrames (length (frames lm)) ?w2")
      with assms lm e ne False have
        eq: "m = nextFree w"
        "w' = w3\<lparr>localMaps := (localMaps w3)(nextFree w \<mapsto>
                 \<lparr>frames = fs, heap = \<lparr>root = None, height = 0\<rparr>,
                  allOthersClobbered = False, refCountLM = 1\<rparr>)\<rparr>"
        by (auto simp: getEmptyMapLM_def Let_def)
      from createEmptyFrames_result [OF cf] have "\<forall>f \<in> set fs. frameEmptyIn w3 f" by simp
      then have "\<forall>f \<in> set fs. frameEmptyIn w' f" using eq by (simp add: frameEmptyIn_def)
      with eq show ?thesis by (simp add: mapEmptyIn_def list_all_iff)
    qed
  qed
qed

lemma getEmptyMapSM_total:
  assumes "f \<in> dom (frameMaps w)"
  shows "\<exists>f' w'. getEmptyMapSM vsDrop f w = Ok (f', w') \<and> dom (frameMaps w) \<subseteq> dom (frameMaps w')"
proof -
  from assms obtain m where m: "frameMaps w f = Some m" by auto
  show ?thesis
  proof (cases "store m = []")
    case True
    with m show ?thesis by (simp add: getEmptyMapSM_def)
  next
    case ne: False
    show ?thesis
    proof (cases "refCountSM m = 1")
      case True
      with m ne show ?thesis
        by (auto simp: getEmptyMapSM_def clearSM_def)
    next
      case False
      then have "refCountSM m - 1 \<noteq> 0" by simp
      with m ne False show ?thesis
        by (auto simp: getEmptyMapSM_def dropReferenceSM_def newSharedStoreMap_def Let_def)
    qed
  qed
qed

lemma emptyFrames_total:
  assumes "set fs \<subseteq> dom (frameMaps w)"
  shows "\<exists>fs' w'. emptyFrames vsDrop fs w = Ok (fs', w')"
  using assms
proof (induction fs arbitrary: w)
  case Nil
  show ?case by simp
next
  case (Cons f fs)
  then have "f \<in> dom (frameMaps w)" by simp
  from getEmptyMapSM_total [OF this, of vsDrop] obtain f1 w1 where
    a: "getEmptyMapSM vsDrop f w = Ok (f1, w1)" and d: "dom (frameMaps w) \<subseteq> dom (frameMaps w1)"
    by blast
  from Cons.prems d have "set fs \<subseteq> dom (frameMaps w1)" by (simp add: subset_iff)
  from Cons.IH [OF this] obtain fs' w' where "emptyFrames vsDrop fs w1 = Ok (fs', w')" by blast
  with a show ?case by simp
qed

lemma framesEmpty_total:
  assumes "set fs \<subseteq> dom fm"
  shows "\<exists>e. framesEmpty fm fs = Ok e"
  using assms by (induction fs) auto

lemma getEmptyMapLM_total:
  assumes lm: "localMaps w this = Some lm"
    and fr: "set (frames lm) \<subseteq> dom (frameMaps w)"
    and easy: "height (heap lm) = 0 \<or> refCountLM lm \<noteq> 1"
  shows "\<exists>r. getEmptyMapLM vsDrop this w = Ok r"
proof -
  have "\<exists>e. emptyLM w lm = Ok e"
    using framesEmpty_total [OF fr] by (cases "height (heap lm) = 0") (auto simp: emptyLM_def)
  then obtain e where e: "emptyLM w lm = Ok e" by blast
  show ?thesis
  proof (cases e)
    case True
    with lm e show ?thesis by (simp add: getEmptyMapLM_def)
  next
    case ne: False
    show ?thesis
    proof (cases "refCountLM lm = 1")
      case True
      with easy have h0: "height (heap lm) = 0" by simp
      from emptyFrames_total [OF fr, of vsDrop] obtain fs' w' where
        "emptyFrames vsDrop (frames lm) w = Ok (fs', w')" by blast
      with h0 lm e ne True show ?thesis
        by (simp add: getEmptyMapLM_def clearLM_def clearRoot_def)
    next
      case False
      with lm e ne show ?thesis
        by (simp add: getEmptyMapLM_def Let_def split: prod.splits)
    qed
  qed
qed

lemma length_emptyFrames:
  assumes "emptyFrames vsDrop fs w = Ok (fs', w')"
  shows "length fs' = length fs"
  using assms
proof (induction fs arbitrary: w fs')
  case Nil
  then show ?case by simp
next
  case (Cons f fs)
  from Cons.prems obtain f1 w1 fs1 where
    b: "emptyFrames vsDrop fs w1 = Ok (fs1, w')" and c: "fs' = f1 # fs1"
    by (auto split: outcome.splits)
  from Cons.IH [OF b] c show ?case by simp
qed

lemma getEmptyMapLM_frames:
  assumes ge: "getEmptyMapLM vsDrop this w = Ok (m, w')"
  shows "\<exists>lm lm'. localMaps w this = Some lm \<and> localMaps w' m = Some lm' \<and>
           length (frames lm') = length (frames lm)"
proof -
  from ge obtain lm where lm: "localMaps w this = Some lm"
    by (auto simp: getEmptyMapLM_def split: option.splits)
  from ge lm obtain e where e: "emptyLM w lm = Ok e"
    by (auto simp: getEmptyMapLM_def split: outcome.splits)
  show ?thesis
  proof (cases e)
    case True
    with ge lm e show ?thesis by (auto simp: getEmptyMapLM_def)
  next
    case ne: False
    show ?thesis
    proof (cases "refCountLM lm = 1")
      case True
      with ge lm e ne have cl: "clearLM vsDrop this w = Ok w'" and eq: "m = this"
        by (auto simp: getEmptyMapLM_def split: outcome.splits)
      from cl lm obtain r' w1 fs' w2 where
        b: "emptyFrames vsDrop (frames lm) w1 = Ok (fs', w2)"
        and c: "w' = w2\<lparr>localMaps := (localMaps w2)(this \<mapsto> lm\<lparr>heap := r', frames := fs'\<rparr>)\<rparr>"
        by (auto simp: clearLM_def split: outcome.splits)
      from length_emptyFrames [OF b] c eq lm show ?thesis by simp
    next
      case False
      let ?w1 = "w\<lparr>localMaps := (localMaps w)(this \<mapsto> lm\<lparr>refCountLM := refCountLM lm - 1\<rparr>)\<rparr>"
      let ?w2 = "?w1\<lparr>nextFree := Suc (nextFree ?w1)\<rparr>"
      obtain fs w3 where cf: "createEmptyFrames (length (frames lm)) ?w2 = (fs, w3)"
        by (cases "createEmptyFrames (length (frames lm)) ?w2")
      with ge lm e ne False have
        eq: "m = nextFree w"
        "w' = w3\<lparr>localMaps := (localMaps w3)(nextFree w \<mapsto>
                 \<lparr>frames = fs, heap = \<lparr>root = None, height = 0\<rparr>,
                  allOthersClobbered = False, refCountLM = 1\<rparr>)\<rparr>"
        by (auto simp: getEmptyMapLM_def Let_def)
      from createEmptyFrames_result [OF cf] have "length fs = length (frames lm)" by simp
      with eq lm show ?thesis by simp
    qed
  qed
qed

lemma evX:
  "\<exists>w'. executeWriteInst extX overdefSet scalar7 8 (\<lparr>localStore = 10\<rparr>, worldX)
          = Ok (scalar7, \<lparr>localStore = 10\<rparr>, w') \<and>
        localMaps w' 10 = Some \<lparr>frames = [20], heap = \<lparr>root = None, height = 0\<rparr>,
                                  allOthersClobbered = True, refCountLM = 1\<rparr> \<and>
        frameMaps w' 20 = Some \<lparr>refCountSM = 1, store = []\<rparr> \<and>
        nodes w' 30 = None"
  by (simp add: executeWriteInst_def extX_def worldX_def overdefSet_def getEmptyMapLM_def emptyLM_def
      clearLM_def clearRoot_def clearSM_def getEmptyMapSM_def Let_def)

lemma evS:
  "\<exists>w'. executeWriteInst extX overdefSet scalar7 8 (\<lparr>localStore = 10\<rparr>, worldS)
          = Ok (scalar7, \<lparr>localStore = 40\<rparr>, w') \<and>
        localMaps w' 40 = Some \<lparr>frames = [41], heap = \<lparr>root = None, height = 0\<rparr>,
                                  allOthersClobbered = True, refCountLM = 1\<rparr> \<and>
        localMaps w' 10 = Some \<lparr>frames = [20], heap = \<lparr>root = Some 30, height = 1\<rparr>,
                                  allOthersClobbered = False, refCountLM = 1\<rparr> \<and>
        frameMaps w' 41 = Some \<lparr>refCountSM = 1, store = []\<rparr> \<and>
        frameMaps w' 20 = Some \<lparr>refCountSM = 1, store = [(5, 100)]\<rparr>"
  by (simp add: executeWriteInst_def extX_def worldS_def overdefSet_def getEmptyMapLM_def emptyLM_def
      newSharedStoreMap_def Let_def)

text \<open>
  Claim C2. Let the pointer value set be overdefined. Whenever \<^verbatim>\<open>executeWriteInst\<close>
  returns, the block's snapshot is an empty map (no heap tree, no entry in any frame) that
  has as many frames as the snapshot the block had before and whose flag
  \<^verbatim>\<open>allOthersClobbered\<close> is set, and every read of a heap object, or of a stack object of one
  of the frames of the snapshot before, returns at once what \<^verbatim>\<open>setOverdef\<close> makes of the
  result, without going to the base store. The call does return when the snapshot
  and its frames exist and the snapshot has no heap tree or is shared.
\<close>

theorem executeWriteInst_overdef_clobbers_all:
  assumes od: "Overdef PtrSet"
  shows "(\<forall>ValPB' StoreBB' w'.
            executeWriteInst ext PtrSet ValPB PtrSize (StoreBB, w) = Ok (ValPB', StoreBB', w') \<longrightarrow>
            mapEmptyIn w' (localStore StoreBB') \<and>
            (\<exists>lm0 lm. localMaps w (localStore StoreBB) = Some lm0 \<and>
               localMaps w' (localStore StoreBB') = Some lm \<and>
               length (frames lm) = length (frames lm0) \<and> allOthersClobbered lm \<and>
               (\<forall>v Off Size Result.
                   getFrameNo ext v = - 1 \<or>
                   (0 \<le> getFrameNo ext v \<and> nat (getFrameNo ext v) < length (frames lm0)) \<longrightarrow>
                   readValRange ext v Off Size (StoreBB', w') Result = Ok (setOverdef ext Result)))) \<and>
         (\<forall>lm. localMaps w (localStore StoreBB) = Some lm \<and>
               set (frames lm) \<subseteq> dom (frameMaps w) \<and>
               (height (heap lm) = 0 \<or> refCountLM lm \<noteq> 1) \<longrightarrow>
               (\<exists>r. executeWriteInst ext PtrSet ValPB PtrSize (StoreBB, w) = Ok r))"
proof (intro conjI allI impI)
  fix ValPB' StoreBB' w'
  assume ex: "executeWriteInst ext PtrSet ValPB PtrSize (StoreBB, w) = Ok (ValPB', StoreBB', w')"
  from ex od obtain m w1 lm1 where
    ge: "getEmptyMapLM (vsDropReference ext) (localStore StoreBB) w = Ok (m, w1)"
    and l1: "localMaps w1 m = Some lm1"
    and bb: "StoreBB' = StoreBB\<lparr>localStore := m\<rparr>"
    and w': "w' = w1\<lparr>localMaps := (localMaps w1)(m \<mapsto> lm1\<lparr>allOthersClobbered := True\<rparr>)\<rparr>"
    by (auto simp: executeWriteInst_def Let_def split: outcome.splits option.splits)
  from getEmptyMapLM_frames [OF ge] l1 obtain lm0 where
    l0: "localMaps w (localStore StoreBB) = Some lm0"
    and fl: "length (frames lm1) = length (frames lm0)"
    by auto
  from getEmptyMapLM_result [OF ge] l1
  have h0: "height (heap lm1) = 0" and fe: "list_all (frameEmptyIn w1) (frames lm1)"
    by (simp_all add: mapEmptyIn_def)
  from fe have fe': "list_all (frameEmptyIn w') (frames lm1)"
    using w' by (simp add: frameEmptyIn_def list_all_iff)
  let ?lm = "lm1\<lparr>allOthersClobbered := True\<rparr>"
  have cur: "localMaps w' (localStore StoreBB') = Some ?lm" using bb w' by simp
  from cur h0 fe' show "mapEmptyIn w' (localStore StoreBB')"
    by (simp add: mapEmptyIn_def)
  have rd: "readValRange ext v Off Size (StoreBB', w') Result = Ok (setOverdef ext Result)"
    if fn: "getFrameNo ext v = - 1 \<or>
            (0 \<le> getFrameNo ext v \<and> nat (getFrameNo ext v) < length (frames lm0))"
    for v Off Size Result
  proof -
    have "getReadableStoreFor ext (StoreBB', w') v = Ok None"
    proof (cases "getFrameNo ext v = - 1")
      case True
      with cur h0 show ?thesis
        by (simp add: getReadableStoreFor_def getReadableStoreForRoot_def)
    next
      case False
      with fn fl have r: "0 \<le> getFrameNo ext v" "nat (getFrameNo ext v) < length (frames lm1)" by simp_all
      with fe' have "frameEmptyIn w' (frames lm1 ! nat (getFrameNo ext v))"
        by (simp add: list_all_length)
      then obtain fm where "frameMaps w' (frames lm1 ! nat (getFrameNo ext v)) = Some fm" "store fm = []"
        by (auto simp: frameEmptyIn_def split: option.splits)
      with cur False r show ?thesis
        by (simp add: getReadableStoreFor_def)
    qed
    with cur show ?thesis by (simp add: readValRange_def)
  qed
  from l0 cur fl rd
  show "\<exists>lm0 lm. localMaps w (localStore StoreBB) = Some lm0 \<and>
               localMaps w' (localStore StoreBB') = Some lm \<and>
               length (frames lm) = length (frames lm0) \<and> allOthersClobbered lm \<and>
               (\<forall>v Off Size Result.
                   getFrameNo ext v = - 1 \<or>
                   (0 \<le> getFrameNo ext v \<and> nat (getFrameNo ext v) < length (frames lm0)) \<longrightarrow>
                   readValRange ext v Off Size (StoreBB', w') Result = Ok (setOverdef ext Result))"
    by (intro exI [of _ lm0] exI [of _ ?lm]) simp
next
  fix lm
  assume a: "localMaps w (localStore StoreBB) = Some lm \<and>
               set (frames lm) \<subseteq> dom (frameMaps w) \<and>
               (height (heap lm) = 0 \<or> refCountLM lm \<noteq> 1)"
  then obtain r where ge: "getEmptyMapLM (vsDropReference ext) (localStore StoreBB) w = Ok r"
    using getEmptyMapLM_total [of w "localStore StoreBB" lm "vsDropReference ext"] by blast
  obtain m w1 where r: "r = (m, w1)" by (cases r)
  from getEmptyMapLM_result [OF ge [unfolded r]] obtain lm1 where "localMaps w1 m = Some lm1"
    by (auto simp: mapEmptyIn_def split: option.splits)
  with ge r od show "\<exists>r. executeWriteInst ext PtrSet ValPB PtrSize (StoreBB, w) = Ok r"
    by (simp add: executeWriteInst_def Let_def)
qed

text \<open>
  The first example snapshot is not shared and has a heap tree: the tree and the frame are
  cleared in place, the flag is set, and a read of stack object 5 is overdefined. The second
  is shared: the block receives a new snapshot with one new empty frame, the old snapshot
  keeps its frame with stack object 5, and a read of stack object 5 by the block is
  overdefined.
\<close>

theorem executeWriteInst_overdef_clobbers_all_witness:
  "Overdef overdefSet \<and>
   (\<exists>w'. executeWriteInst extX overdefSet scalar7 8 (\<lparr>localStore = 10\<rparr>, worldX)
            = Ok (scalar7, \<lparr>localStore = 10\<rparr>, w') \<and>
          mapEmptyIn w' 10 \<and>
          localMaps w' 10 = Some \<lparr>frames = [20], heap = \<lparr>root = None, height = 0\<rparr>,
                                    allOthersClobbered = True, refCountLM = 1\<rparr> \<and>
          readValRange extX 5 0 4 (\<lparr>localStore = 10\<rparr>, w') scalar7
            = Ok (setOverdef extX scalar7)) \<and>
   (\<exists>w'. executeWriteInst extX overdefSet scalar7 8 (\<lparr>localStore = 10\<rparr>, worldS)
            = Ok (scalar7, \<lparr>localStore = 40\<rparr>, w') \<and>
          mapEmptyIn w' 40 \<and>
          localMaps w' 40 = Some \<lparr>frames = [41], heap = \<lparr>root = None, height = 0\<rparr>,
                                    allOthersClobbered = True, refCountLM = 1\<rparr> \<and>
          frameMaps w' 20 = Some \<lparr>refCountSM = 1, store = [(5, 100)]\<rparr> \<and>
          readValRange extX 5 0 4 (\<lparr>localStore = 40\<rparr>, w') scalar7
            = Ok (setOverdef extX scalar7))"
proof -
  have od: "Overdef overdefSet" by (simp add: overdefSet_def)
  have f5: "getFrameNo extX 5 = - 1 \<or> (0 \<le> getFrameNo extX 5 \<and> nat (getFrameNo extX 5) < length [20 :: nat])"
    by (simp add: extX_def)
  from evX obtain w' where
    ev: "executeWriteInst extX overdefSet scalar7 8 (\<lparr>localStore = 10\<rparr>, worldX)
          = Ok (scalar7, \<lparr>localStore = 10\<rparr>, w')"
    and lm: "localMaps w' 10 = Some \<lparr>frames = [20], heap = \<lparr>root = None, height = 0\<rparr>,
                                  allOthersClobbered = True, refCountLM = 1\<rparr>"
    by blast
  have lx: "localMaps worldX 10 = Some \<lparr>frames = [20], heap = \<lparr>root = Some 30, height = 1\<rparr>,
                                  allOthersClobbered = False, refCountLM = 1\<rparr>"
    by (simp add: worldX_def)
  note T = executeWriteInst_overdef_clobbers_all [OF od, of extX scalar7 8 "\<lparr>localStore = 10\<rparr>" worldX,
      THEN conjunct1, rule_format, OF ev]
  from T have me: "mapEmptyIn w' 10" by simp
  from T lx have rd: "\<forall>v Off Size Result.
       getFrameNo extX v = - 1 \<or>
       (0 \<le> getFrameNo extX v \<and> nat (getFrameNo extX v) < length [20 :: nat]) \<longrightarrow>
       readValRange extX v Off Size (\<lparr>localStore = 10\<rparr>, w') Result = Ok (setOverdef extX Result)"
    by auto
  with f5 have r5: "readValRange extX 5 0 4 (\<lparr>localStore = 10\<rparr>, w') scalar7
            = Ok (setOverdef extX scalar7)" by blast
  from evS obtain w2 where
    ev2: "executeWriteInst extX overdefSet scalar7 8 (\<lparr>localStore = 10\<rparr>, worldS)
          = Ok (scalar7, \<lparr>localStore = 40\<rparr>, w2)"
    and lm2: "localMaps w2 40 = Some \<lparr>frames = [41], heap = \<lparr>root = None, height = 0\<rparr>,
                                  allOthersClobbered = True, refCountLM = 1\<rparr>"
    and fm2: "frameMaps w2 20 = Some \<lparr>refCountSM = 1, store = [(5, 100)]\<rparr>"
    by blast
  have ls: "localMaps worldS 10 = Some \<lparr>frames = [20], heap = \<lparr>root = Some 30, height = 1\<rparr>,
                                  allOthersClobbered = False, refCountLM = 2\<rparr>"
    by (simp add: worldS_def)
  note T2 = executeWriteInst_overdef_clobbers_all [OF od, of extX scalar7 8 "\<lparr>localStore = 10\<rparr>" worldS,
      THEN conjunct1, rule_format, OF ev2]
  from T2 have me2: "mapEmptyIn w2 40" by simp
  from T2 ls have rd2: "\<forall>v Off Size Result.
       getFrameNo extX v = - 1 \<or>
       (0 \<le> getFrameNo extX v \<and> nat (getFrameNo extX v) < length [20 :: nat]) \<longrightarrow>
       readValRange extX v Off Size (\<lparr>localStore = 40\<rparr>, w2) Result = Ok (setOverdef extX Result)"
    by auto
  with f5 have r52: "readValRange extX 5 0 4 (\<lparr>localStore = 40\<rparr>, w2) scalar7
            = Ok (setOverdef extX scalar7)" by blast
  from od ev me lm r5 ev2 me2 lm2 fm2 r52 show ?thesis by blast
qed

subsection \<open>Writes and copies through null pointers\<close>

lemma writeLoop_all_null:
  assumes "list_all (\<lambda>iv. isNullPointer ext (V iv)) vs"
  shows "writeLoop ext PtrSize vs ValPB st = Ok (ValPB, st)"
  using assms by (induction vs) simp_all

text \<open>
  Claim C10, as the code has it. When the pointer value set is not overdefined and all
  its candidates are null pointers, \<^verbatim>\<open>executeWriteInst\<close> returns with the block and
  the objects unchanged, and so does \<^verbatim>\<open>executeCopyInst\<close> with such a destination.
  When the size is known and both value sets are single and not overdefined,
  \<^verbatim>\<open>executeCopyInst\<close> with a null source returns with nothing changed.
\<close>

theorem null_candidates_leave_snapshot:
  "(\<not> Overdef PtrSet \<and> list_all (\<lambda>iv. isNullPointer ext (V iv)) (Values PtrSet) \<longrightarrow>
      (\<exists>ValPB'. executeWriteInst ext PtrSet ValPB PtrSize st = Ok (ValPB', st)) \<and>
      executeCopyInst ext PtrSet SrcPtrSet Size st = Ok st) \<and>
   (Size \<noteq> ULONG_MAX \<and> \<not> Overdef PtrSet \<and> length (Values PtrSet) = 1 \<and>
    \<not> Overdef SrcPtrSet \<and> length (Values SrcPtrSet) = 1 \<and>
    isNullPointer ext (V (hd (Values SrcPtrSet))) \<longrightarrow>
      executeCopyInst ext PtrSet SrcPtrSet Size st = Ok st)"
proof (intro conjI impI)
  assume a: "\<not> Overdef PtrSet \<and> list_all (\<lambda>iv. isNullPointer ext (V iv)) (Values PtrSet)"
  have w: "\<exists>ValPB'. executeWriteInst ext PtrSet ValPB PtrSize st = Ok (ValPB', st)" for ValPB PtrSize
  proof (cases "length (Values PtrSet) = 1 \<and> Offset (hd (Values PtrSet)) \<noteq> LLONG_MAX")
    case True
    then obtain iv where "Values PtrSet = [iv]" by (cases "Values PtrSet") auto
    with a True show ?thesis
      by (cases st) (simp add: executeWriteInst_def Let_def)
  next
    case False
    from a have "writeLoop ext PtrSize (Values PtrSet)
        (if \<not> isInitialised ext ValPB then setOverdef ext ValPB else ValPB) st
        = Ok (if \<not> isInitialised ext ValPB then setOverdef ext ValPB else ValPB, st)"
      by (intro writeLoop_all_null) simp
    with a False show ?thesis
      by (cases st) (auto simp: executeWriteInst_def Let_def)
  qed
  from w show "\<exists>ValPB'. executeWriteInst ext PtrSet ValPB PtrSize st = Ok (ValPB', st)" .
  show "executeCopyInst ext PtrSet SrcPtrSet Size st = Ok st"
  proof (cases "Size = ULONG_MAX \<or> Overdef PtrSet \<or> length (Values PtrSet) \<noteq> 1 \<or>
         Overdef SrcPtrSet \<or> length (Values SrcPtrSet) \<noteq> 1")
    case True
    from w [of "getOverdef ext" Size] obtain OD where
      "executeWriteInst ext PtrSet (getOverdef ext) Size st = Ok (OD, st)" by blast
    with True show ?thesis by (simp add: executeCopyInst_def)
  next
    case False
    then obtain iv where "Values PtrSet = [iv]" by (cases "Values PtrSet") auto
    with a False show ?thesis by (simp add: executeCopyInst_def)
  qed
next
  assume "Size \<noteq> ULONG_MAX \<and> \<not> Overdef PtrSet \<and> length (Values PtrSet) = 1 \<and>
    \<not> Overdef SrcPtrSet \<and> length (Values SrcPtrSet) = 1 \<and>
    isNullPointer ext (V (hd (Values SrcPtrSet)))"
  then show "executeCopyInst ext PtrSet SrcPtrSet Size st = Ok st"
    by (simp add: executeCopyInst_def)
qed


text \<open>A store and an 8-byte copy through the null pointer, on the example snapshot.\<close>

theorem null_candidates_leave_snapshot_witness:
  "\<not> Overdef nullSet \<and> list_all (\<lambda>iv. isNullPointer extX (V iv)) (Values nullSet) \<and>
   (8 :: 64 word) \<noteq> ULONG_MAX \<and> length (Values nullSet) = 1 \<and>
   (\<exists>ValPB'. executeWriteInst extX nullSet scalar7 8 (\<lparr>localStore = 10\<rparr>, worldX)
                = Ok (ValPB', \<lparr>localStore = 10\<rparr>, worldX)) \<and>
   executeCopyInst extX nullSet nullSet 8 (\<lparr>localStore = 10\<rparr>, worldX)
     = Ok (\<lparr>localStore = 10\<rparr>, worldX)"
proof -
  have h: "\<not> Overdef nullSet \<and> list_all (\<lambda>iv. isNullPointer extX (V iv)) (Values nullSet)"
    by (simp add: nullSet_def extX_def)
  have g: "(8 :: 64 word) \<noteq> ULONG_MAX" "length (Values nullSet) = 1"
    by (simp_all add: ULONG_MAX_def nullSet_def)
  from null_candidates_leave_snapshot [of nullSet extX scalar7 8 "(\<lparr>localStore = 10\<rparr>, worldX)" nullSet 8,
      THEN conjunct1, rule_format, OF h] h g
  show ?thesis by blast
qed


text \<open>
  Claim C10 as stated fails for \<^verbatim>\<open>executeCopyInst\<close>: the test for a copy that is not
  from one pointer to one pointer comes before the tests for null. Here the source is
  the single null pointer and the destination is overdefined: the copy is executed as a
  write through an overdefined pointer, which clears the snapshot.
\<close>

theorem executeCopyInst_null_source_counterexample:
  "\<not> Overdef nullSet \<and> length (Values nullSet) = 1 \<and>
   isNullPointer extX (V (hd (Values nullSet))) \<and>
   (\<exists>bb' w'. executeCopyInst extX overdefSet nullSet 8 (\<lparr>localStore = 10\<rparr>, worldX) = Ok (bb', w') \<and>
       localMaps w' 10 \<noteq> localMaps worldX 10 \<and>
       frameMaps w' 20 \<noteq> frameMaps worldX 20)"
  by (simp add: executeCopyInst_def executeWriteInst_def extX_def worldX_def overdefSet_def nullSet_def
      getEmptyMapLM_def emptyLM_def clearLM_def clearRoot_def clearSM_def getEmptyMapSM_def Let_def)

subsection \<open>Merging frames at a control-flow join\<close>












text \<open>
  The keys a frame map holds.
\<close>

definition keysIn :: "('v, 'vs) world \<Rightarrow> addr \<Rightarrow> 'v set" where
  "keysIn w f = (case frameMaps w f of None \<Rightarrow> {} | Some fm \<Rightarrow> fst ` set (store fm))"







lemma keysIn_upd_other:
  "f \<noteq> t \<Longrightarrow> keysIn (w\<lparr>valsets := vs, frameMaps := (frameMaps w)(t \<mapsto> x)\<rparr>) f = keysIn w f"
  by (simp add: keysIn_def)













section \<open>Decomposition and reconstruction of constants\<close>

text \<open>
  An LLVM \<^verbatim>\<open>Constant\<close>, as far as \<^verbatim>\<open>getConstSubVals\<close> tells constants apart: a
  \<^verbatim>\<open>ConstantArray\<close> and a \<^verbatim>\<open>ConstantStruct\<close> with their type and operands, and every other
  constant (``a primitive, constant-aggregate-zero, constant-data-array or similar'') with its
  type and an opaque payload.
\<close>

datatype ('ty, 'p) Constant =
    ConstantArray 'ty "('ty, 'p) Constant list"
  | ConstantStruct 'ty "('ty, 'p) Constant list"
  | OtherConstant 'ty 'p

primrec getType :: "('ty, 'p) Constant \<Rightarrow> 'ty" where
  "getType (ConstantArray ty es) = ty"
| "getType (ConstantStruct ty es) = ty"
| "getType (OtherConstant ty p) = ty"

primrec operands :: "('ty, 'p) Constant \<Rightarrow> ('ty, 'p) Constant list" where
  "operands (ConstantArray ty es) = es"
| "operands (ConstantStruct ty es) = es"
| "operands (OtherConstant ty p) = []"

text \<open>
  \<^verbatim>\<open>Constant::getAggregateElement(unsigned)\<close>: the index is converted to 32 bits, and the
  result is null when there is no such operand.
\<close>

definition getAggregateElement :: "('ty, 'p) Constant \<Rightarrow> 64 word \<Rightarrow> ('ty, 'p) Constant option" where
  "getAggregateElement c Elt =
     (let i = unat (ucast Elt :: 32 word) in
      if i < length (operands c) then Some (operands c ! i) else None)"

text \<open>
  What \<^verbatim>\<open>getConstSubVals\<close> and \<^verbatim>\<open>valsToConst\<close> call and do not define, as parameters: the sizes
  and struct layouts of the target data layout (\<open>'sl\<close> is a \<^verbatim>\<open>StructLayout\<close>), the type
  accessors, \<^verbatim>\<open>ReadDataFromGlobal\<close> (its effect on a zeroed buffer, \<open>None\<close> when it returns
  false), the constructors of constants, and \<^verbatim>\<open>getValPB\<close> and \<^verbatim>\<open>cast_val<Constant>\<close> of the
  header.
\<close>

record ('ty, 'sl, 'p, 'v) constEnv =
  getTypeStoreSize :: "'ty \<Rightarrow> 64 word"
  getTypeAllocSize :: "'ty \<Rightarrow> 64 word"
  getElementType :: "'ty \<Rightarrow> 'ty"
  getNumElements :: "'ty \<Rightarrow> 32 word"
  getStructLayout :: "'ty \<Rightarrow> 'sl option"
  getElementContainingOffset :: "'sl \<Rightarrow> 64 word \<Rightarrow> 32 word"
  getElementOffset :: "'sl \<Rightarrow> 64 word \<Rightarrow> 64 word"
  getIntNTy :: "64 word \<Rightarrow> 'ty"
  ReadDataFromGlobal :: "('ty, 'p) Constant \<Rightarrow> 64 word \<Rightarrow> 64 word \<Rightarrow> 8 word list option"
  constFromBytes :: "8 word list \<Rightarrow> 'ty \<Rightarrow> ('ty, 'p) Constant"
  UndefValue_get :: "'ty \<Rightarrow> ('ty, 'p) Constant"
  ConstantArray_get :: "'ty \<Rightarrow> ('ty, 'p) Constant list \<Rightarrow> ('ty, 'p) Constant"
  getValPB :: "('ty, 'p) Constant \<Rightarrow> ValSetType \<times> 'v ImprovedVal"
  cast_val :: "'v \<Rightarrow> ('ty, 'p) Constant option"

text \<open>
  An \<^verbatim>\<open>IVSRange\<close> pairs an extent with a value set. The extent is a pair of a start and an
  end: \<^verbatim>\<open>AddIVSConst(x, y, z)\<close> records \<^verbatim>\<open>(x + OffsetAbove, x + y + OffsetAbove)\<close> and
  \<^verbatim>\<open>valsToConst\<close> takes \<^verbatim>\<open>first.second - first.first\<close> for the number of bytes.
\<close>

type_synonym 'v IVSRange = "(64 word \<times> 64 word) \<times> 'v ImprovedValSetSingle"

definition IVSR :: "64 word \<Rightarrow> 64 word \<Rightarrow> 'v ImprovedValSetSingle \<Rightarrow> 'v IVSRange" where
  "IVSR x y z = ((x, y), z)"

text \<open>
  \<^verbatim>\<open>ImprovedValSetSingle::get\<close> and \<^verbatim>\<open>ImprovedValSetSingle::getOverdef\<close> are the header's: the value
  set of one value, and the overdefined value set.
\<close>

definition ImprovedValSetSingle_get :: "'v ImprovedVal \<Rightarrow> ValSetType \<Rightarrow> 'v ImprovedValSetSingle" where
  "ImprovedValSetSingle_get iv t = \<lparr>SetType = t, Values = [iv], Overdef = False\<rparr>"

definition ImprovedValSetSingle_getOverdef :: "'v ImprovedValSetSingle" where
  "ImprovedValSetSingle_getOverdef = \<lparr>SetType = ValSetTypeUnknown, Values = [], Overdef = True\<rparr>"

definition AddIVSConst ::
  "('ty, 'sl, 'p, 'v) constEnv \<Rightarrow> 64 word \<Rightarrow> 64 word \<Rightarrow> 64 word \<Rightarrow> ('ty, 'p) Constant \<Rightarrow> 'v IVSRange"
where
  "AddIVSConst env OffsetAbove x y z =
     (case getValPB env z of
        (t, iv) \<Rightarrow> IVSR (x + OffsetAbove) (x + y + OffsetAbove) (ImprovedValSetSingle_get iv t))"

text \<open>
  The step of the array case that reads whole elements: one element as it is, several as a
  sub-array that \<^verbatim>\<open>ConstantArray::get\<close> builds with the type of the whole array. The loop that
  fills the sub-array runs from \<^verbatim>\<open>StartE\<close> until it meets \<^verbatim>\<open>EndE\<close>.
\<close>

definition arrayWhole ::
  "('ty, 'sl, 'p, 'v) constEnv \<Rightarrow> ('ty, 'p) Constant \<Rightarrow> 64 word \<Rightarrow> 64 word \<Rightarrow> 64 word \<Rightarrow> 64 word \<Rightarrow>
   'v IVSRange list outcome"
where
  "arrayWhole env CA ESize StartE EndE OffsetAbove =
     (if EndE - StartE = 1 then
        (case getAggregateElement CA StartE of
           None \<Rightarrow> Crash
         | Some e \<Rightarrow> Ok [AddIVSConst env OffsetAbove (StartE * ESize) ESize e])
      else if EndE - StartE > 1 then
        (case those (map (\<lambda>j. getAggregateElement CA (StartE + of_nat j)) [0 ..< unat (EndE - StartE)]) of
           None \<Rightarrow> Crash
         | Some subArray \<Rightarrow>
             Ok [AddIVSConst env OffsetAbove (StartE * ESize) (ESize * (EndE - StartE))
                   (ConstantArray_get env (getType CA) subArray)])
      else Ok [])"

text \<open>
  The loop of the struct case over the whole elements \<^verbatim>\<open>StartE\<close> to \<^verbatim>\<open>EndE\<close>: each is recorded
  with its store size and, when another element follows after padding, the padding is recorded
  as an undefined constant of type \<^verbatim>\<open>i(TargetSize * 8)\<close>.
\<close>

primrec structWhole ::
  "('ty, 'sl, 'p, 'v) constEnv \<Rightarrow> ('ty, 'p) Constant \<Rightarrow> 'sl \<Rightarrow> 64 word \<Rightarrow> 64 word \<Rightarrow> 64 word list \<Rightarrow>
   'v IVSRange list outcome"
where
  "structWhole env CS SL TargetSize OffsetAbove [] = Ok []"
| "structWhole env CS SL TargetSize OffsetAbove (StartE # rest) =
     (case getAggregateElement CS StartE of
        None \<Rightarrow> Crash
      | Some E \<Rightarrow>
          let ESize = getTypeStoreSize env (getType E);
              ThisOff = getElementOffset env SL StartE;
              whole = [AddIVSConst env OffsetAbove ThisOff ESize E];
              padding =
                (if StartE + 1 < ucast (getNumElements env (getType CS)) then
                   let NextOff = getElementOffset env SL (StartE + 1);
                       PaddingBytes = NextOff - (ThisOff + ESize)
                   in if PaddingBytes \<noteq> 0
                      then [AddIVSConst env OffsetAbove (ThisOff + ESize) PaddingBytes
                              (UndefValue_get env (getIntNTy env (TargetSize * 8)))]
                      else []
                 else [])
          in (case structWhole env CS SL TargetSize OffsetAbove rest of
                Ok Dest \<Rightarrow> Ok (whole @ padding @ Dest)
              | AssertFail \<Rightarrow> AssertFail
              | Crash \<Rightarrow> Crash))"

lemma getAggregateElement_size [termination_simp]:
  "getAggregateElement c i = Some e \<Longrightarrow> size e < size c"
proof -
  assume a: "getAggregateElement c i = Some e"
  then have "e \<in> set (operands c)"
    by (auto simp: getAggregateElement_def Let_def split: if_splits)
  then show ?thesis
    by (cases c) (auto simp: less_Suc_eq_le intro: size_list_estimation')
qed

text \<open>
  \<^verbatim>\<open>getConstSubVals\<close>. The extents pushed onto \<^verbatim>\<open>Dest\<close> are returned in the order of the pushes.
  A null constant that is dereferenced and a division by an element size of zero are crashes.
\<close>

function getConstSubVals ::
  "('ty, 'sl, 'p, 'v) constEnv \<Rightarrow> ('ty, 'p) Constant \<Rightarrow> 64 word \<Rightarrow> 64 word \<Rightarrow> 64 word \<Rightarrow>
   'v IVSRange list outcome"
where
  "getConstSubVals env FromC Off TargetSize OffsetAbove =
     (let FromSize = getTypeStoreSize env (getType FromC) in
      if Off = 0 \<and> TargetSize = FromSize then
        Ok [AddIVSConst env OffsetAbove 0 TargetSize FromC]
      else if Off + TargetSize > FromSize then
        (case getConstSubVals env FromC Off (FromSize - Off) OffsetAbove of
           Ok Dest \<Rightarrow>
             Ok (Dest @ [IVSR FromSize ((Off + TargetSize) - FromSize) ImprovedValSetSingle_getOverdef])
         | AssertFail \<Rightarrow> AssertFail
         | Crash \<Rightarrow> Crash)
      else
        (case FromC of
           ConstantArray ty es \<Rightarrow>
             (let ESize = getTypeAllocSize env (getElementType env ty) in
              if ESize = 0 then Crash
              else
                let StartE = Off div ESize;
                    StartOff = Off mod ESize;
                    EndE = (Off + TargetSize) div ESize;
                    EndOff = (Off + TargetSize) mod ESize
                in
                (case (if StartOff \<noteq> 0 then
                         (case getAggregateElement FromC StartE of
                            None \<Rightarrow> Crash
                          | Some StartC \<Rightarrow>
                              (case getConstSubVals env StartC StartOff
                                      (if EndE = StartE then EndOff - StartOff else ESize - StartOff)
                                      (OffsetAbove + ESize * StartE) of
                                 Ok Dest \<Rightarrow>
                                   Ok (Dest, StartE = EndE \<or> (StartE + 1 = EndE \<and> EndOff = 0), StartE + 1)
                               | AssertFail \<Rightarrow> AssertFail
                               | Crash \<Rightarrow> Crash))
                       else Ok ([], False, StartE)) of
                   AssertFail \<Rightarrow> AssertFail
                 | Crash \<Rightarrow> Crash
                 | Ok (Dest1, done, StartE') \<Rightarrow>
                     if done then Ok Dest1
                     else
                       (case arrayWhole env FromC ESize StartE' EndE OffsetAbove of
                          AssertFail \<Rightarrow> AssertFail
                        | Crash \<Rightarrow> Crash
                        | Ok Dest2 \<Rightarrow>
                            if EndOff \<noteq> 0 then
                              (case getAggregateElement FromC EndE of
                                 None \<Rightarrow> Crash
                               | Some E \<Rightarrow>
                                   (case getConstSubVals env E 0 EndOff (OffsetAbove + ESize * EndE) of
                                      Ok Dest3 \<Rightarrow> Ok (Dest1 @ Dest2 @ Dest3)
                                    | AssertFail \<Rightarrow> AssertFail
                                    | Crash \<Rightarrow> Crash))
                            else Ok (Dest1 @ Dest2))))
         | ConstantStruct ty es \<Rightarrow>
             (case getStructLayout env ty of
                None \<Rightarrow> Ok [IVSR Off TargetSize ImprovedValSetSingle_getOverdef]
              | Some SL \<Rightarrow>
                  let StartE = ucast (getElementContainingOffset env SL Off);
                      StartOff = Off - getElementOffset env SL StartE;
                      EndE = ucast (getElementContainingOffset env SL (Off + TargetSize));
                      EndOff = (Off + TargetSize) - getElementOffset env SL EndE
                  in
                  (case (if StartOff \<noteq> 0 then
                           (case getAggregateElement FromC StartE of
                              None \<Rightarrow> Crash
                            | Some StartC \<Rightarrow>
                                (case getConstSubVals env StartC StartOff
                                        (if EndE = StartE then EndOff - StartOff
                                         else getTypeStoreSize env (getType StartC) - StartOff)
                                        (OffsetAbove + getElementOffset env SL StartE) of
                                   Ok Dest \<Rightarrow>
                                     Ok (Dest, StartE = EndE \<or> (StartE + 1 = EndE \<and> EndOff = 0), StartE + 1)
                                 | AssertFail \<Rightarrow> AssertFail
                                 | Crash \<Rightarrow> Crash))
                         else Ok ([], False, StartE)) of
                     AssertFail \<Rightarrow> AssertFail
                   | Crash \<Rightarrow> Crash
                   | Ok (Dest1, done, StartE') \<Rightarrow>
                       if done then Ok Dest1
                       else
                         (case structWhole env FromC SL TargetSize OffsetAbove
                                 (map of_nat [unat StartE' ..< unat EndE]) of
                            AssertFail \<Rightarrow> AssertFail
                          | Crash \<Rightarrow> Crash
                          | Ok Dest2 \<Rightarrow>
                              if EndOff \<noteq> 0 then
                                (case getAggregateElement FromC EndE of
                                   None \<Rightarrow> Crash
                                 | Some E \<Rightarrow>
                                     (case getConstSubVals env E 0 EndOff
                                             (OffsetAbove + getElementOffset env SL EndE) of
                                        Ok Dest3 \<Rightarrow> Ok (Dest1 @ Dest2 @ Dest3)
                                      | AssertFail \<Rightarrow> AssertFail
                                      | Crash \<Rightarrow> Crash))
                              else Ok (Dest1 @ Dest2))))
         | OtherConstant ty p \<Rightarrow>
             (case ReadDataFromGlobal env FromC Off TargetSize of
                Some Buffer \<Rightarrow>
                  Ok [AddIVSConst env OffsetAbove Off TargetSize
                        (constFromBytes env Buffer (getIntNTy env (TargetSize * 8)))]
              | None \<Rightarrow> Ok [IVSR Off TargetSize ImprovedValSetSingle_getOverdef])))"
  by pat_completeness auto
termination
  by (relation "measure (\<lambda>(env, FromC, Off, TargetSize, OffsetAbove).
        2 * size FromC +
        (if getTypeStoreSize env (getType FromC) < Off + TargetSize then 1 else 0))")
     (auto dest: getAggregateElement_size)

text \<open>
  The loop of \<^verbatim>\<open>valsToConst\<close> that reads every extent's constant into the buffer at the
  extent's start. A write outside the buffer is a crash.
\<close>

primrec fillBuffer ::
  "('ty, 'sl, 'p, 'v) constEnv \<Rightarrow> 'v IVSRange list \<Rightarrow> 8 word list \<Rightarrow> 8 word list option outcome"
where
  "fillBuffer env [] buffer = Ok (Some buffer)"
| "fillBuffer env (it # rest) buffer =
     (case Values (snd it) of
        [] \<Rightarrow> Crash
      | iv # ivs \<Rightarrow>
          (case cast_val env (V iv) of
             None \<Rightarrow> AssertFail
           | Some c \<Rightarrow>
               let start = unat (fst (fst it));
                   n = unat (snd (fst it) - fst (fst it))
               in
               (case ReadDataFromGlobal env c 0 (snd (fst it) - fst (fst it)) of
                  None \<Rightarrow> Ok None
                | Some bs \<Rightarrow>
                    if start + n \<le> length buffer
                    then fillBuffer env rest (take start buffer @ fitBuf n bs @ drop (start + n) buffer)
                    else Crash)))"

text \<open>
  \<^verbatim>\<open>valsToConst\<close>; the null result is \<open>None\<close>.
\<close>

definition valsToConst ::
  "('ty, 'sl, 'p, 'v) constEnv \<Rightarrow> 'v IVSRange list \<Rightarrow> 64 word \<Rightarrow> 'ty option \<Rightarrow>
   ('ty, 'p) Constant option outcome"
where
  "valsToConst env subVals TargetSize targetType =
     (if subVals = [] then Ok None
      else if list_ex (\<lambda>it. Overdef (snd it)) subVals then Ok None
      else if length subVals = 1 then
        (case Values (snd (hd subVals)) of
           [] \<Rightarrow> Crash
         | iv # ivs \<Rightarrow>
             (case cast_val env (V iv) of
                None \<Rightarrow> AssertFail
              | Some c \<Rightarrow> Ok (Some c)))
      else
        (case fillBuffer env subVals (replicate (unat TargetSize) 0) of
           AssertFail \<Rightarrow> AssertFail
         | Crash \<Rightarrow> Crash
         | Ok None \<Rightarrow> Ok None
         | Ok (Some buffer) \<Rightarrow>
             Ok (Some (constFromBytes env buffer
                         (case targetType of
                            Some t \<Rightarrow> t
                          | None \<Rightarrow> getIntNTy env (TargetSize * 8))))))"

text \<open>
  \<^verbatim>\<open>getSubConst\<close>: decomposition, with extents relative to the start of the read, followed by
  reconstruction.
\<close>

definition getSubConst ::
  "('ty, 'sl, 'p, 'v) constEnv \<Rightarrow> ('ty, 'p) Constant \<Rightarrow> 64 word \<Rightarrow> 64 word \<Rightarrow> 'ty option \<Rightarrow>
   ('ty, 'p) Constant option outcome"
where
  "getSubConst env FromC Off TargetSize targetType =
     (case getConstSubVals env FromC Off TargetSize (- Off) of
        AssertFail \<Rightarrow> AssertFail
      | Crash \<Rightarrow> Crash
      | Ok subVals \<Rightarrow> valsToConst env subVals TargetSize targetType)"

text \<open>
  An example: the types \<^verbatim>\<open>i8\<close>, \<^verbatim>\<open>i32\<close>, \<^verbatim>\<open>{i8, i32}\<close> (fields at the offsets 0 and 4, eight
  bytes with the padding) and \<^verbatim>\<open>iN\<close>; constants of these types that carry their bytes; the
  element containing an offset found as \<^verbatim>\<open>StructLayout::getElementContainingOffset\<close> finds
  it, as the last element that starts at or before the offset; and direct byte extraction
  reading the bytes of a constant, zero in padding and past the end, failing for a start past
  the end.
\<close>

datatype TyX = I8 | I32 | StructI8I32 | IntN "64 word"

primrec sizeX :: "TyX \<Rightarrow> 64 word" where
  "sizeX I8 = 1"
| "sizeX I32 = 4"
| "sizeX StructI8I32 = 8"
| "sizeX (IntN bits) = bits div 8"

primrec layoutX :: "TyX \<Rightarrow> 64 word list option" where
  "layoutX I8 = None"
| "layoutX I32 = None"
| "layoutX StructI8I32 = Some [0, 4]"
| "layoutX (IntN bits) = None"

primrec numElementsX :: "TyX \<Rightarrow> 32 word" where
  "numElementsX I8 = 0"
| "numElementsX I32 = 0"
| "numElementsX StructI8I32 = 2"
| "numElementsX (IntN bits) = 0"

definition placeX :: "(64 word \<times> 8 word list) \<Rightarrow> 8 word list \<Rightarrow> 8 word list" where
  "placeX f buf = take (unat (fst f)) buf @ snd f @ drop (unat (fst f) + length (snd f)) buf"

fun bytesX :: "(TyX, 8 word list) Constant \<Rightarrow> 8 word list" where
  "bytesX (OtherConstant ty bs) = bs"
| "bytesX (ConstantArray ty es) = concat (map bytesX es)"
| "bytesX (ConstantStruct ty es) =
     fold placeX (zip (case layoutX ty of None \<Rightarrow> [] | Some offs \<Rightarrow> offs) (map bytesX es))
       (replicate (unat (sizeX ty)) 0)"

definition rdfgX :: "(TyX, 8 word list) Constant \<Rightarrow> 64 word \<Rightarrow> 64 word \<Rightarrow> 8 word list option" where
  "rdfgX c off n =
     (if unat off \<le> length (bytesX c)
      then Some (take (unat n) (drop (unat off) (bytesX c) @ replicate (unat n) 0))
      else None)"

definition envX ::
  "(TyX, 64 word list, 8 word list, (TyX, 8 word list) Constant) constEnv"
where
  "envX = \<lparr>getTypeStoreSize = sizeX, getTypeAllocSize = sizeX, getElementType = (\<lambda>t. t),
           getNumElements = numElementsX, getStructLayout = layoutX,
           getElementContainingOffset = (\<lambda>offs x. of_nat (length (takeWhile (\<lambda>off. off \<le> x) offs) - 1)),
           getElementOffset = (\<lambda>offs i. offs ! unat i),
           getIntNTy = IntN,
           ReadDataFromGlobal = rdfgX,
           constFromBytes = (\<lambda>bs ty. OtherConstant ty bs),
           UndefValue_get = (\<lambda>ty. OtherConstant ty []),
           ConstantArray_get = ConstantArray,
           getValPB = (\<lambda>c. (ValSetTypeScalar, \<lparr>V = c, Offset = 0\<rparr>)),
           cast_val = Some\<rparr>"

definition i8X :: "(TyX, 8 word list) Constant" where
  "i8X = OtherConstant I8 [1]"

definition i32X :: "(TyX, 8 word list) Constant" where
  "i32X = OtherConstant I32 [2, 0, 0, 0]"

definition structX :: "(TyX, 8 word list) Constant" where
  "structX = ConstantStruct StructI8I32 [i8X, i32X]"

definition scalarOf :: "(TyX, 8 word list) Constant \<Rightarrow> (TyX, 8 word list) Constant ImprovedValSetSingle" where
  "scalarOf c = \<lparr>SetType = ValSetTypeScalar, Values = [\<lparr>V = c, Offset = 0\<rparr>], Overdef = False\<rparr>"


subsection \<open>A read that runs past the end of the constant\<close>

text \<open>
  The branch for a read that runs past the end, for every constant: what the recursive call
  for the in-bounds part returns is followed by one overdefined extent, whose pair is the
  store size and the number of bytes past the end.
\<close>

lemma getConstSubVals_out_of_bounds:
  assumes nw: "\<not> (Off = 0 \<and> TargetSize = getTypeStoreSize env (getType FromC))"
    and oob: "getTypeStoreSize env (getType FromC) < Off + TargetSize"
    and inner: "getConstSubVals env FromC Off (getTypeStoreSize env (getType FromC) - Off) OffsetAbove
                  = Ok Dest"
  shows "getConstSubVals env FromC Off TargetSize OffsetAbove =
           Ok (Dest @ [((getTypeStoreSize env (getType FromC),
                         Off + TargetSize - getTypeStoreSize env (getType FromC)),
                        ImprovedValSetSingle_getOverdef)])"
proof -
  have "getConstSubVals env FromC Off TargetSize OffsetAbove =
          (case getConstSubVals env FromC Off (getTypeStoreSize env (getType FromC) - Off) OffsetAbove of
             Ok Dest \<Rightarrow>
               Ok (Dest @ [IVSR (getTypeStoreSize env (getType FromC))
                             ((Off + TargetSize) - getTypeStoreSize env (getType FromC))
                             ImprovedValSetSingle_getOverdef])
           | AssertFail \<Rightarrow> AssertFail
           | Crash \<Rightarrow> Crash)"
    by (subst getConstSubVals.simps) (simp only: Let_def if_not_P [OF nw] if_P [OF oob])
  then show ?thesis
    by (simp only: inner outcome.case IVSR_def)
qed

text \<open>
  Claim C7: when the requested range runs past the store size of the constant, the in-bounds
  part is defined from the constant and one overdefined extent covers the remainder from
  \<^verbatim>\<open>FromSize\<close> to \<^verbatim>\<open>Offset + TargetSize\<close>. The code records the in-bounds part, but the
  overdefined extent it appends is the pair of \<^verbatim>\<open>FromSize\<close> and the length
  \<^verbatim>\<open>Offset + TargetSize - FromSize\<close>, without \<^verbatim>\<open>OffsetAbove\<close>. Reading eight bytes of the
  four-byte constant gives the overdefined extent from 4 to 4, not from 4 to 8; with
  \<^verbatim>\<open>OffsetAbove = 16\<close> the defined part is reported from 16 to 20 and the overdefined extent
  is still the pair of 4 and 4.
\<close>

theorem getConstSubVals_out_of_bounds_extent:
  "getConstSubVals envX i32X 0 8 0 =
     Ok [((0, 4), scalarOf i32X), ((4, 4), ImprovedValSetSingle_getOverdef)] \<and>
   getConstSubVals envX i32X 0 8 16 =
     Ok [((16, 20), scalarOf i32X), ((4, 4), ImprovedValSetSingle_getOverdef)]"
  by code_simp


subsection \<open>Decomposition followed by reconstruction\<close>

text \<open>
  Claim C6: decomposing a constant over an in-bounds range and reconstructing the extents
  yields a constant equal to direct byte extraction, also for a struct with padding. On the
  struct \<^verbatim>\<open>{i8 1, i32 2}\<close>, whose bytes 1 to 3 are padding, the read of the bytes 0 to 3 goes
  through the loop over whole elements, which records the padding as a constant, and the
  round trip gives the bytes that direct extraction gives. The read of the bytes 0 and 1
  ends in the padding: it is passed on as a read of two bytes of the one-byte field, which is
  taken for a read out of bounds and gets an overdefined extent, so reconstruction returns
  null although direct extraction succeeds. The read of the bytes 2 to 5 starts in the
  padding: the size of the read passed on to the field is \<^verbatim>\<open>StartCSize - StartOff\<close>, which
  wraps around, and reconstruction returns null again.
\<close>

theorem getSubConst_struct_padding:
  "rdfgX structX 0 4 = Some [1, 0, 0, 0] \<and>
   getSubConst envX structX 0 4 None = Ok (Some (OtherConstant (IntN 32) [1, 0, 0, 0])) \<and>
   rdfgX structX 0 2 = Some [1, 0] \<and>
   getConstSubVals envX structX 0 2 0 =
     Ok [((0, 1), scalarOf i8X), ((1, 1), ImprovedValSetSingle_getOverdef)] \<and>
   getSubConst envX structX 0 2 None = Ok None \<and>
   rdfgX structX 2 4 = Some [0, 0, 2, 0] \<and>
   getConstSubVals envX structX 2 4 (- 2) =
     Ok [((2, 0xFFFFFFFFFFFFFFFF), ImprovedValSetSingle_getOverdef),
         ((2, 4), scalarOf (OtherConstant (IntN 16) [2, 0]))] \<and>
   getSubConst envX structX 2 4 None = Ok None"
  by code_simp

end
